theory Spec2Isabelle
  imports Main "HOL-Library.Word"
begin

section \<open>Machine integers and the Windows helpers the code uses\<close>

text \<open>
  The driver is built for Windows only, where \<^verbatim>\<open>int\<close>, \<^verbatim>\<open>long\<close>, \<^verbatim>\<open>INT32\<close> and
  \<^verbatim>\<open>HRESULT\<close> are all 32-bit two's complement integers. They are modelled as
  32-bit words; \<open><s\<close> and \<open>\<le>s\<close> are the signed comparisons, and \<open>+\<close> and \<open>-\<close> wrap
  around as the compiled code does.
\<close>

type_synonym int32 = "32 word"
type_synonym HRESULT = "32 word"
type_synonym HWND = nat

text \<open>The \<^verbatim>\<open>max\<close> and \<^verbatim>\<open>min\<close> macros: \<^verbatim>\<open>(((a) > (b)) ? (a) : (b))\<close> and
  \<^verbatim>\<open>(((a) < (b)) ? (a) : (b))\<close>.\<close>

definition c_max :: "int32 \<Rightarrow> int32 \<Rightarrow> int32" where
  "c_max a b = (if b <s a then a else b)"

definition c_min :: "int32 \<Rightarrow> int32 \<Rightarrow> int32" where
  "c_min a b = (if a <s b then a else b)"

definition S_OK :: HRESULT where
  "S_OK = 0"

definition E_FAIL :: HRESULT where
  "E_FAIL = 0x80004005"

definition E_POINTER :: HRESULT where
  "E_POINTER = 0x80004003"

definition SUCCEEDED :: "HRESULT \<Rightarrow> bool" where
  "SUCCEEDED hr = (0 \<le>s hr)"

definition FAILED :: "HRESULT \<Rightarrow> bool" where
  "FAILED hr = (hr <s 0)"

text \<open>What makes control leave a function other than by a return: a C++ exception,
  or the access violation of a call through a null pointer.\<close>

datatype exn = invalid_argument string | access_violation

section \<open>The window system\<close>

text \<open>
  A window has a rectangle and a maximized flag. While it is maximized the window
  system remembers the rectangle to go back to (\<open>restored_rc\<close>); \<open>maximized_rc\<close> is
  the rectangle it occupies when maximized.
\<close>

record RECT =
  rc_left :: int32
  rc_top :: int32
  rc_right :: int32
  rc_bottom :: int32

record window =
  rc :: RECT
  zoomed :: bool
  restored_rc :: RECT
  maximized_rc :: RECT

datatype nCmdShow = SW_MAXIMIZE | SW_SHOWNOACTIVATE

text \<open>The calls with an effect that the code makes, in the order it makes them.\<close>

datatype call =
    Call_ShowWindow HWND nCmdShow
  | Call_SetWindowPos HWND int32 int32
  | Call_PrintWindow HWND
  | Call_UpdateWindow HWND
  | Call_recalc bool

text \<open>
  What the window system does with one \<^verbatim>\<open>SetWindowPos\<close> request: it applies the
  requested size, refuses (returns FALSE, nothing changes), or reports success
  with another size than the requested one.
\<close>

datatype swp_outcome = Applied | Refused | Adjusted int32 int32

record world =
  windows :: "HWND \<Rightarrow> window option"
  SetWindowPos_outcome :: "call list \<Rightarrow> HWND \<Rightarrow> int32 \<Rightarrow> int32 \<Rightarrow> swp_outcome"
  calls :: "call list"

definition record_call :: "call \<Rightarrow> world \<Rightarrow> world" where
  "record_call c w = w\<lparr>calls := calls w @ [c]\<rparr>"

definition GetWindowRect :: "world \<Rightarrow> HWND \<Rightarrow> RECT option" where
  "GetWindowRect w hwnd = map_option rc (windows w hwnd)"

definition IsZoomed :: "world \<Rightarrow> HWND \<Rightarrow> bool" where
  "IsZoomed w hwnd = (case windows w hwnd of None \<Rightarrow> False | Some win \<Rightarrow> zoomed win)"

definition resized :: "RECT \<Rightarrow> int32 \<Rightarrow> int32 \<Rightarrow> RECT" where
  "resized r cx cy = r\<lparr>rc_right := rc_left r + cx, rc_bottom := rc_top r + cy\<rparr>"

text \<open>\<^verbatim>\<open>SetWindowPos(hwnd, NULL, 0, 0, cx, cy, SWP_NOMOVE | ...)\<close>: the position stays.\<close>

definition SetWindowPos :: "HWND \<Rightarrow> int32 \<Rightarrow> int32 \<Rightarrow> world \<Rightarrow> bool \<times> world" where
  "SetWindowPos hwnd cx cy w =
     (let w' = record_call (Call_SetWindowPos hwnd cx cy) w in
      case windows w hwnd of
        None \<Rightarrow> (False, w')
      | Some win \<Rightarrow>
          (case SetWindowPos_outcome w (calls w) hwnd cx cy of
             Refused \<Rightarrow> (False, w')
           | Applied \<Rightarrow>
               (True, w'\<lparr>windows := (windows w)(hwnd := Some (win\<lparr>rc := resized (rc win) cx cy\<rparr>))\<rparr>)
           | Adjusted cx' cy' \<Rightarrow>
               (True, w'\<lparr>windows := (windows w)(hwnd := Some (win\<lparr>rc := resized (rc win) cx' cy'\<rparr>))\<rparr>)))"

definition show_window :: "nCmdShow \<Rightarrow> window \<Rightarrow> window" where
  "show_window cmd win =
     (case cmd of
        SW_SHOWNOACTIVATE \<Rightarrow>
          (if zoomed win then win\<lparr>rc := restored_rc win, zoomed := False\<rparr> else win)
      | SW_MAXIMIZE \<Rightarrow>
          (if zoomed win then win
           else win\<lparr>restored_rc := rc win, rc := maximized_rc win, zoomed := True\<rparr>))"

definition ShowWindow :: "HWND \<Rightarrow> nCmdShow \<Rightarrow> world \<Rightarrow> world" where
  "ShowWindow hwnd cmd w =
     (let w' = record_call (Call_ShowWindow hwnd cmd) w in
      case windows w hwnd of
        None \<Rightarrow> w'
      | Some win \<Rightarrow> w'\<lparr>windows := (windows w)(hwnd := Some (show_window cmd win))\<rparr>)"

section \<open>ScreenshotUtilities.cpp\<close>

definition GetWindowSize :: "world \<Rightarrow> HWND \<Rightarrow> (int32 \<times> int32) option" where
  "GetWindowSize w hwnd =
     (case GetWindowRect w hwnd of
        None \<Rightarrow> None
      | Some rect \<Rightarrow> Some (rc_right rect - rc_left rect, rc_bottom rect - rc_top rect))"

text \<open>
  \<^verbatim>\<open>SetWindowSize\<close> re-reads the size after a successful \<^verbatim>\<open>SetWindowPos\<close>;
  \<^verbatim>\<open>width2\<close> and \<^verbatim>\<open>height2\<close> stay 0 when that read fails.
\<close>

definition SetWindowSize :: "HWND \<Rightarrow> int32 \<Rightarrow> int32 \<Rightarrow> world \<Rightarrow> bool \<times> world" where
  "SetWindowSize hwnd width height w =
     (let (succeed, w') = SetWindowPos hwnd width height w in
      if succeed then
        (let (width2, height2) = (case GetWindowSize w' hwnd of None \<Rightarrow> (0, 0) | Some sz \<Rightarrow> sz)
         in (width2 = width \<and> height2 = height, w'))
      else (False, w'))"

text \<open>
  A \<^verbatim>\<open>CImage\<close>: \<open>GetBits image y x\<close> is the \<^verbatim>\<open>INT32\<close> number \<open>x\<close> of the row reached
  from \<^verbatim>\<open>GetBits()\<close> after \<open>y\<close> steps of \<^verbatim>\<open>GetPitch()\<close>.
\<close>

record CImage =
  GetWidth :: int32
  GetHeight :: int32
  GetBPP :: int32
  GetBits :: "int32 \<Rightarrow> int32 \<Rightarrow> int32"

text \<open>The inner loop over \<open>x\<close>; False is the \<^verbatim>\<open>return false\<close>.\<close>

function columns_same :: "int32 \<Rightarrow> (int32 \<Rightarrow> int32) \<Rightarrow> int32 \<Rightarrow> int32 \<Rightarrow> bool" where
  "columns_same first_pixel ptr width x =
     (if x <s width then
        (if first_pixel \<noteq> ptr x then False
         else columns_same first_pixel ptr width (x + 1))
      else True)"
  by pat_completeness auto
termination
proof (relation "measure (\<lambda>(first_pixel, ptr, width, x). nat (sint width - sint x))")
  show "wf (measure (\<lambda>(first_pixel, ptr, width, x). nat (sint width - sint x)))"
    by simp
next
  fix first_pixel :: int32 and ptr :: "int32 \<Rightarrow> int32" and width x :: int32
  assume "x <s width"
  then have lt: "sint x < sint width"
    by (simp add: word_sless_alt)
  have "sint width < 2 ^ 31" "- (2 ^ 31) \<le> sint x"
    using sint_lt [of width] sint_ge [of x] by simp_all
  with lt have "sint (x + 1) = sint x + 1"
    by (simp add: sint_word_ariths signed_take_bit_int_eq_self)
  with lt show "((first_pixel, ptr, width, x + 1), (first_pixel, ptr, width, x))
      \<in> measure (\<lambda>(first_pixel, ptr, width, x). nat (sint width - sint x))"
    by simp
qed

text \<open>The outer loop over \<open>y\<close>.\<close>

function rows_same :: "CImage \<Rightarrow> int32 \<Rightarrow> int32 \<Rightarrow> int32 \<Rightarrow> int32 \<Rightarrow> bool" where
  "rows_same img first_pixel width height y =
     (if y <s height then
        (if columns_same first_pixel (GetBits img y) width 0
         then rows_same img first_pixel width height (y + 1)
         else False)
      else True)"
  by pat_completeness auto
termination
proof (relation "measure (\<lambda>(img, first_pixel, width, height, y). nat (sint height - sint y))")
  show "wf (measure (\<lambda>(img, first_pixel, width, height, y). nat (sint height - sint y)))"
    by simp
next
  fix img :: CImage and first_pixel width height y :: int32
  assume "y <s height"
  then have lt: "sint y < sint height"
    by (simp add: word_sless_alt)
  have "sint height < 2 ^ 31" "- (2 ^ 31) \<le> sint y"
    using sint_lt [of height] sint_ge [of y] by simp_all
  with lt have "sint (y + 1) = sint y + 1"
    by (simp add: sint_word_ariths signed_take_bit_int_eq_self)
  with lt show "((img, first_pixel, width, height, y + 1), (img, first_pixel, width, height, y))
      \<in> measure (\<lambda>(img, first_pixel, width, height, y). nat (sint height - sint y))"
    by simp
qed

definition IsImageSameColour :: "CImage \<Rightarrow> int32 \<Rightarrow> int32 \<Rightarrow> exn + bool" where
  "IsImageSameColour img check_width check_height =
     (if GetBPP img \<noteq> 32
      then Inl (invalid_argument ''Invalid image bit depth. Must be 32 BPP.'')
      else
        (let width = c_min check_width (GetWidth img);
             height = c_min check_height (GetHeight img);
             first_pixel = GetBits img 0 0
         in Inr (rows_same img first_pixel width height 0)))"

section \<open>What the browser, the document and GDI answer during one capture\<close>

text \<open>
  Everything \<^verbatim>\<open>CaptureBrowser\<close> reads from outside and cannot influence is an
  input: the handles of the browser wrapper, whether the wrapper hands out a
  document, the results of the COM calls and whether the call that gets the
  canvas stores an element or leaves the pointer null (\<^verbatim>\<open>get_body\<close> succeeds with a
  null pointer on a document that has no body), the canvas metrics in the order
  the code reads them, whether \<^verbatim>\<open>CImage::Create\<close>
  succeeds, and for the paint attempt number \<open>i\<close> what \<^verbatim>\<open>PrintWindow\<close> returns and
  what the bitmap holds afterwards.
\<close>

record env =
  GetTopLevelWindowHandle :: HWND
  GetContentWindowHandle :: HWND
  browser_GetDocument :: bool
  QueryInterface_IHTMLDocument3 :: HRESULT
  IsStandardsMode :: bool
  get_documentElement :: HRESULT
  documentElement_stored :: bool
  get_body :: HRESULT
  body_stored :: bool
  QueryInterface_IHTMLElement2 :: HRESULT
  get_clientWidth :: int32
  get_scrollWidth :: int32
  get_clientHeight :: int32
  get_scrollHeight :: int32
  get_clientWidth_again :: "int32 \<Rightarrow> int32"
  get_clientHeight_again :: "int32 \<Rightarrow> int32"
  Create :: "int32 \<Rightarrow> int32 \<Rightarrow> bool"
  PrintWindow :: "int32 \<Rightarrow> bool \<times> (int32 \<Rightarrow> int32 \<Rightarrow> int32)"

section \<open>ScreenshotCommandHandler.h\<close>

subsection \<open>CaptureView\<close>

text \<open>
  The loop \<^verbatim>\<open>for (int i = 1; i <= 3; i++)\<close>. A recursive call is a \<^verbatim>\<open>continue\<close>,
  returning the image is the \<^verbatim>\<open>break\<close>, and an exception of
  \<^verbatim>\<open>IsImageSameColour\<close> leaves the loop and the function.
\<close>

function capture_tries ::
  "env \<Rightarrow> HWND \<Rightarrow> int32 \<Rightarrow> int32 \<Rightarrow> int32 \<Rightarrow> CImage \<Rightarrow> world \<Rightarrow> (exn + CImage) \<times> world" where
  "capture_tries e view_handle check_width check_height i img w =
     (if i \<le>s 3 then
        (let (is_print_success, painted) = PrintWindow e i;
             img' = img\<lparr>GetBits := painted\<rparr>;
             w' = record_call (Call_PrintWindow view_handle) w
         in if \<not> is_print_success then
              capture_tries e view_handle check_width check_height (i + 1) img'
                (record_call (Call_UpdateWindow view_handle) w')
            else
              (case IsImageSameColour img' check_width check_height of
                 Inl ex \<Rightarrow> (Inl ex, w')
               | Inr is_same_color \<Rightarrow>
                   if is_same_color then
                     capture_tries e view_handle check_width check_height (i + 1) img'
                       (record_call (Call_UpdateWindow view_handle) w')
                   else (Inr img', w')))
      else (Inr img, w))"
  by pat_completeness auto
termination
proof -
  have step: "sint i < 4" "sint i < sint (i + 1)" if "i \<le>s 3" for i :: int32
  proof -
    from that have le: "sint i \<le> 3"
      by (simp add: word_sle_eq)
    have "- (2 ^ 31) \<le> sint i"
      using sint_ge [of i] by simp
    with le have "sint (i + 1) = sint i + 1"
      by (simp add: sint_word_ariths signed_take_bit_int_eq_self)
    with le show "sint i < 4" "sint i < sint (i + 1)"
      by simp_all
  qed
  show ?thesis
    by (relation "measure (\<lambda>(e, view_handle, check_width, check_height, i, img, w). nat (4 - sint i))")
      (auto simp: step)
qed

definition CaptureView ::
  "env \<Rightarrow> HWND \<Rightarrow> int32 \<Rightarrow> int32 \<Rightarrow> int32 \<Rightarrow> int32 \<Rightarrow> world \<Rightarrow> (exn + CImage option) \<times> world" where
  "CaptureView e view_handle width height check_width check_height w =
     (if \<not> Create e width height then (Inr None, w)
      else
        (case capture_tries e view_handle check_width check_height 1
                \<lparr>GetWidth = width, GetHeight = height, GetBPP = 32, GetBits = (\<lambda>y x. 0)\<rparr> w of
           (Inl ex, w') \<Rightarrow> (Inl ex, w')
         | (Inr img, w') \<Rightarrow> (Inr (Some img), w')))"

subsection \<open>GetDocument and GetCanvas\<close>

text \<open>
  In \<^verbatim>\<open>GetDocument\<close> the parameter \<^verbatim>\<open>document2\<close> is the address of the caller's smart
  pointer, so the test \<^verbatim>\<open>!document2\<close> is never true. When the browser wrapper has
  left the pointer null, the next statement calls \<^verbatim>\<open>QueryInterface\<close> through it.
\<close>

definition GetDocument :: "env \<Rightarrow> exn + bool" where
  "GetDocument e =
     (if \<not> browser_GetDocument e then Inl access_violation
      else if FAILED (QueryInterface_IHTMLDocument3 e) then Inr False
      else Inr True)"

text \<open>
  \<^verbatim>\<open>GetCanvas\<close> has no test of the element pointer: when the successful
  \<^verbatim>\<open>get_documentElement\<close> or \<^verbatim>\<open>get_body\<close> has left it null, line 363 calls
  \<^verbatim>\<open>QueryInterface\<close> through it.
\<close>

definition GetCanvas :: "env \<Rightarrow> exn + bool" where
  "GetCanvas e =
     (if IsStandardsMode e \<and> FAILED (get_documentElement e) then Inr False
      else if \<not> IsStandardsMode e \<and> FAILED (get_body e) then Inr False
      else if \<not> (if IsStandardsMode e then documentElement_stored e else body_stored e)
      then Inl access_violation
      else if FAILED (QueryInterface_IHTMLElement2 e) then Inr False
      else Inr True)"

subsection \<open>CaptureBrowser\<close>

text \<open>The local variables of \<^verbatim>\<open>CaptureBrowser\<close>.\<close>

record locals =
  windowWidth :: int32
  windowHeight :: int32
  viewWidth :: int32
  viewHeight :: int32
  is_maximized :: bool
  is_resized_width :: bool
  is_resized_height :: bool
  targetWindowWidth :: int32
  targetWindowHeight :: int32
  clientWidth :: int32
  scrollWidth :: int32
  scrollbarWidth :: int32
  targetViewWidth :: int32
  clientHeight :: int32
  scrollHeight :: int32
  scrollbarHeight :: int32
  targetViewHeight :: int32
  targetClientWidth :: int32
  targetClientHeight :: int32

definition SIZE_LIMIT :: int32 where
  "SIZE_LIMIT = 65534"

text \<open>Lines 132 to 141: the maximized flag and the initial values.\<close>

definition initial_locals :: "world \<Rightarrow> HWND \<Rightarrow> int32 \<times> int32 \<Rightarrow> int32 \<times> int32 \<Rightarrow> locals" where
  "initial_locals w ie_window_handle window_size view_size =
     \<lparr>windowWidth = fst window_size, windowHeight = snd window_size,
      viewWidth = fst view_size, viewHeight = snd view_size,
      is_maximized = IsZoomed w ie_window_handle,
      is_resized_width = False, is_resized_height = False,
      targetWindowWidth = fst window_size, targetWindowHeight = snd window_size,
      clientWidth = 0, scrollWidth = 0, scrollbarWidth = 0, targetViewWidth = 0,
      clientHeight = 0, scrollHeight = 0, scrollbarHeight = 0, targetViewHeight = 0,
      targetClientWidth = 0, targetClientHeight = 0\<rparr>"

text \<open>Lines 143 to 172: the width metrics, and the increase of the window width.\<close>

definition increase_width :: "env \<Rightarrow> HWND \<Rightarrow> locals \<times> world \<Rightarrow> locals \<times> world" where
  "increase_width e ie_window_handle lw =
     (let (l, w) = lw;
          l = l\<lparr>clientWidth := get_clientWidth e\<rparr>;
          l = l\<lparr>scrollWidth := get_scrollWidth e\<rparr>;
          l = l\<lparr>scrollbarWidth := c_max 0 (viewWidth l - clientWidth l)\<rparr>;
          l = l\<lparr>targetViewWidth := c_max (viewWidth l) (scrollWidth l + scrollbarWidth l)\<rparr>
      in if viewWidth l <s targetViewWidth l then
           (let l = (if SIZE_LIMIT <s targetViewWidth l
                     then l\<lparr>targetViewWidth := SIZE_LIMIT\<rparr> else l);
                w = (if is_maximized l
                     then ShowWindow ie_window_handle SW_SHOWNOACTIVATE w else w);
                l = l\<lparr>targetWindowWidth := targetWindowWidth l + (targetViewWidth l - viewWidth l)\<rparr>;
                w = snd (SetWindowSize ie_window_handle (targetWindowWidth l) (targetWindowHeight l) w)
            in (l\<lparr>is_resized_width := True\<rparr>, w))
         else (l, w))"

text \<open>Lines 174 to 210: the height metrics, and the increase of the window height.\<close>

definition increase_height :: "env \<Rightarrow> HWND \<Rightarrow> locals \<times> world \<Rightarrow> locals \<times> world" where
  "increase_height e ie_window_handle lw =
     (let (l, w) = lw;
          l = l\<lparr>clientHeight := get_clientHeight e\<rparr>;
          l = l\<lparr>scrollHeight := get_scrollHeight e\<rparr>;
          l = l\<lparr>scrollbarHeight := c_max 0 (viewHeight l - clientHeight l)\<rparr>;
          l = l\<lparr>targetViewHeight := c_max (viewHeight l) (scrollHeight l + scrollbarHeight l)\<rparr>
      in if viewHeight l <s targetViewHeight l then
           (let l = (if SIZE_LIMIT <s targetViewHeight l
                     then l\<lparr>targetViewHeight := SIZE_LIMIT\<rparr> else l);
                w = (if is_maximized l \<and> \<not> is_resized_width l
                     then ShowWindow ie_window_handle SW_SHOWNOACTIVATE w else w);
                l = (if 0 <s scrollbarWidth l
                     then l\<lparr>targetViewHeight := targetViewHeight l - 2\<rparr> else l);
                l = l\<lparr>targetWindowHeight := targetWindowHeight l + (targetViewHeight l - viewHeight l)\<rparr>;
                w = snd (SetWindowSize ie_window_handle (targetWindowWidth l) (targetWindowHeight l) w)
            in (l\<lparr>is_resized_height := True\<rparr>, w))
         else (l, w))"

text \<open>
  Lines 218 to 233: the loop \<^verbatim>\<open>for (int i = 0; i < 2; i++)\<close> that reads the client
  size again; returning is the \<^verbatim>\<open>break\<close> or the end of the loop.
\<close>

function read_client_size :: "env \<Rightarrow> int32 \<Rightarrow> locals \<times> world \<Rightarrow> locals \<times> world" where
  "read_client_size e i lw =
     (if i <s 2 then
        (let (l, w) = lw;
             l = l\<lparr>targetClientWidth := get_clientWidth_again e i\<rparr>;
             l = l\<lparr>targetClientHeight := get_clientHeight_again e i\<rparr>;
             calcWidthOK = (\<not> is_resized_width l \<or> targetClientWidth l \<noteq> clientWidth l);
             calcHeightOK = (\<not> is_resized_height l \<or> targetClientHeight l \<noteq> clientHeight l)
         in if calcWidthOK \<and> calcHeightOK then (l, w)
            else
              (let fForce = (0 <s i)
               in read_client_size e (i + 1) (l, record_call (Call_recalc fForce) w)))
      else lw)"
  by pat_completeness auto
termination
proof -
  have step: "sint i < 2" "sint i < sint (i + 1)" if "i <s 2" for i :: int32
  proof -
    from that have lt: "sint i < 2"
      by (simp add: word_sless_alt)
    have "- (2 ^ 31) \<le> sint i"
      using sint_ge [of i] by simp
    with lt have "sint (i + 1) = sint i + 1"
      by (simp add: sint_word_ariths signed_take_bit_int_eq_self)
    with lt show "sint i < 2" "sint i < sint (i + 1)"
      by simp_all
  qed
  show ?thesis
    by (relation "measure (\<lambda>(e, i, lw). nat (2 - sint i))") (auto simp: step)
qed

text \<open>Lines 212 to 234: the final client size.\<close>

definition final_client_size :: "env \<Rightarrow> locals \<times> world \<Rightarrow> locals \<times> world" where
  "final_client_size e lw =
     (let (l, w) = lw;
          l = l\<lparr>targetClientWidth := clientWidth l\<rparr>;
          l = l\<lparr>targetClientHeight := clientHeight l\<rparr>
      in if is_resized_width l \<or> is_resized_height l
         then read_client_size e 0 (l, w)
         else (l, w))"

text \<open>Lines 236 to 242: a client area of less than one pixel.\<close>

definition ensure_client_area :: "locals \<Rightarrow> locals" where
  "ensure_client_area l =
     (if targetClientWidth l <s 1 \<or> targetClientHeight l <s 1
      then l\<lparr>targetClientWidth := targetViewWidth l, targetClientHeight := targetViewHeight l\<rparr>
      else l)"

text \<open>Lines 255 to 262: the browser gets its original dimensions back.\<close>

definition restore_browser :: "HWND \<Rightarrow> locals \<Rightarrow> world \<Rightarrow> world" where
  "restore_browser ie_window_handle l w =
     (if is_resized_width l \<or> is_resized_height l then
        (if is_maximized l then ShowWindow ie_window_handle SW_MAXIMIZE w
         else snd (SetWindowSize ie_window_handle (windowWidth l) (windowHeight l) w))
      else w)"

text \<open>Lines 132 to 234: the sizes as read and increased, before the check of the
  client area; lines 132 to 246 with it.\<close>

definition read_sizes ::
  "env \<Rightarrow> int32 \<times> int32 \<Rightarrow> int32 \<times> int32 \<Rightarrow> world \<Rightarrow> locals \<times> world" where
  "read_sizes e window_size view_size w =
     (let ie_window_handle = GetTopLevelWindowHandle e;
          lw = (initial_locals w ie_window_handle window_size view_size, w);
          lw = increase_width e ie_window_handle lw;
          lw = increase_height e ie_window_handle lw
      in final_client_size e lw)"

definition target_sizes ::
  "env \<Rightarrow> int32 \<times> int32 \<Rightarrow> int32 \<times> int32 \<Rightarrow> world \<Rightarrow> locals \<times> world" where
  "target_sizes e window_size view_size w =
     (let (l, w) = read_sizes e window_size view_size w
      in (ensure_client_area l, w))"

text \<open>
  Lines 249 to 264, after \<^verbatim>\<open>CaptureView\<close> has run: the assignment of \<^verbatim>\<open>image_\<close>, the
  restoration and the result. An exception of \<^verbatim>\<open>CaptureView\<close> would leave
  \<^verbatim>\<open>CaptureBrowser\<close> before the assignment and before the browser is restored:
  there is no handler.
\<close>

definition finish_capture ::
  "HWND \<Rightarrow> locals \<Rightarrow> CImage option \<Rightarrow> (exn + CImage option) \<times> world
     \<Rightarrow> (exn + HRESULT) \<times> CImage option \<times> world" where
  "finish_capture ie_window_handle l this_image captured =
     (case captured of
        (Inl ex, w) \<Rightarrow> (Inl ex, this_image, w)
      | (Inr img, w) \<Rightarrow>
          (let w = restore_browser ie_window_handle l w
           in (Inr (if img = None then E_FAIL else S_OK), img, w)))"

text \<open>
  \<^verbatim>\<open>CaptureBrowser\<close> returns the \<^verbatim>\<open>HRESULT\<close>, the member \<^verbatim>\<open>image_\<close> and the world.
\<close>

definition CaptureBrowser ::
  "env \<Rightarrow> CImage option \<Rightarrow> world \<Rightarrow> (exn + HRESULT) \<times> CImage option \<times> world" where
  "CaptureBrowser e this_image w =
     (let ie_window_handle = GetTopLevelWindowHandle e;
          content_window_handle = GetContentWindowHandle e
      in if ie_window_handle = 0 \<or> content_window_handle = 0 then (Inr E_FAIL, this_image, w)
         else
           (case GetDocument e of
              Inl ex \<Rightarrow> (Inl ex, this_image, w)
            | Inr got_document \<Rightarrow>
                if \<not> got_document then (Inr E_FAIL, this_image, w)
                else
                  (case GetCanvas e of
                     Inl ex \<Rightarrow> (Inl ex, this_image, w)
                   | Inr got_canvas \<Rightarrow>
                       if \<not> got_canvas then (Inr E_FAIL, this_image, w)
                       else
                         (case GetWindowSize w ie_window_handle of
                            None \<Rightarrow> (Inr E_FAIL, this_image, w)
                          | Some window_size \<Rightarrow>
                              (case GetWindowSize w content_window_handle of
                                 None \<Rightarrow> (Inr E_FAIL, this_image, w)
                               | Some view_size \<Rightarrow>
                                   (let (l, w) = target_sizes e window_size view_size w
                                    in finish_capture ie_window_handle l this_image
                                         (CaptureView e content_window_handle
                                            (targetClientWidth l) (targetClientHeight l)
                                            (clientWidth l - 17) (clientHeight l - 17) w)))))))"

subsection \<open>The request: ExecuteInternal and ConvImageToPngBase64string\<close>

text \<open>
  What one request meets: the status code of \<^verbatim>\<open>GetCurrentBrowser\<close> and the value of
  the constant \<^verbatim>\<open>WD_SUCCESS\<close> (declared outside the two files at hand), what the
  browser answers during the capture attempt number \<open>i\<close>, and the results of the
  stream, GDI+ and ATL calls of the encoder. \<open>Save\<close> gives the bytes written to
  the stream, \<open>Base64Encode\<close> the text written for the source bytes and the
  destination capacity, or None where it returns FALSE.
\<close>

record executor =
  WD_SUCCESS :: int32
  GetCurrentBrowser :: int32
  browser_at :: "int32 \<Rightarrow> env"
  CreateStreamOnHGlobal :: HRESULT
  Save :: "CImage \<Rightarrow> HRESULT \<times> 8 word list"
  Stat :: HRESULT
  GetHGlobalFromStream :: HRESULT
  Base64EncodeGetRequiredLength :: "int32 \<Rightarrow> int32"
  GlobalLock :: bool
  Base64Encode :: "8 word list \<Rightarrow> int32 \<Rightarrow> string option"

text \<open>
  \<^verbatim>\<open>data = data_array\<close> copies the zero-terminated text, so it stops at the first
  zero character.
\<close>

definition ConvImageToPngBase64string ::
  "executor \<Rightarrow> CImage option \<Rightarrow> string \<Rightarrow> HRESULT \<times> string" where
  "ConvImageToPngBase64string x image_ptr data =
     (case image_ptr of
        None \<Rightarrow> (E_POINTER, data)
      | Some img \<Rightarrow>
          if FAILED (CreateStreamOnHGlobal x) then (CreateStreamOnHGlobal x, data)
          else
            (let (hr, stream) = Save x img
             in if FAILED hr then (hr, data)
                else if FAILED (Stat x) then (Stat x, data)
                else if FAILED (GetHGlobalFromStream x) then (GetHGlobalFromStream x, data)
                else
                  (let stream_size = (word_of_nat (length stream) :: int32);
                       len = Base64EncodeGetRequiredLength x stream_size
                   in if len \<le>s 0 then (E_FAIL, data)
                      else if \<not> GlobalLock x then (E_FAIL, data)
                      else
                        (case Base64Encode x (take (nat (sint stream_size)) stream) len of
                           None \<Rightarrow> (E_FAIL, data)
                         | Some data_array \<Rightarrow>
                             (S_OK, takeWhile (\<lambda>c. c \<noteq> CHR 0x00) data_array)))))"

datatype Response = ErrorResponse int32 string | SuccessResponse string

definition ClearImage :: "CImage option \<Rightarrow> CImage option" where
  "ClearImage this_image = None"

definition tries :: int32 where
  "tries = 2"

text \<open>
  The loop \<^verbatim>\<open>for (int i = 1; ; i++)\<close> of \<^verbatim>\<open>ExecuteInternal\<close>. It ends with
  \<open>Inr None\<close> at the \<^verbatim>\<open>break\<close>, and with \<open>Inr (Some response)\<close> where the function
  sets the response and returns from inside the loop.
\<close>

function capture_loop ::
  "executor \<Rightarrow> int32 \<Rightarrow> CImage option \<Rightarrow> world \<Rightarrow> (exn + Response option) \<times> CImage option \<times> world" where
  "capture_loop x i this_image w =
     (case CaptureBrowser (browser_at x i) this_image w of
        (Inl ex, this_image, w) \<Rightarrow> (Inl ex, this_image, w)
      | (Inr hr, this_image, w) \<Rightarrow>
          if SUCCEEDED hr then (Inr None, this_image, w)
          else
            (let this_image = ClearImage this_image
             in if tries \<le>s i then (Inr (Some (SuccessResponse [])), this_image, w)
                else capture_loop x (i + 1) this_image w))"
  by pat_completeness auto
termination
proof -
  have step: "sint i < 2" "sint i < sint (i + 1)" if "\<not> tries \<le>s i" for i :: int32
  proof -
    from that have lt: "sint i < 2"
      by (simp add: tries_def word_sle_eq)
    have "- (2 ^ 31) \<le> sint i"
      using sint_ge [of i] by simp
    with lt have "sint (i + 1) = sint i + 1"
      by (simp add: sint_word_ariths signed_take_bit_int_eq_self)
    with lt show "sint i < 2" "sint i < sint (i + 1)"
      by simp_all
  qed
  show ?thesis
    by (relation "measure (\<lambda>(x, i, this_image, w). nat (2 - sint i))") (auto simp: step)
qed

definition ExecuteInternal ::
  "executor \<Rightarrow> CImage option \<Rightarrow> world \<Rightarrow> (exn + Response) \<times> CImage option \<times> world" where
  "ExecuteInternal x this_image w =
     (let status_code = GetCurrentBrowser x
      in if status_code \<noteq> WD_SUCCESS x
         then (Inr (ErrorResponse status_code ''Unable to get browser''), this_image, w)
         else
           (case capture_loop x 1 this_image w of
              (Inl ex, this_image, w) \<Rightarrow> (Inl ex, this_image, w)
            | (Inr (Some response), this_image, w) \<Rightarrow> (Inr response, this_image, w)
            | (Inr None, this_image, w) \<Rightarrow>
                (let (hr, base64_screenshot) = ConvImageToPngBase64string x this_image []
                 in if FAILED hr then (Inr (SuccessResponse []), ClearImage this_image, w)
                    else (Inr (SuccessResponse base64_screenshot), ClearImage this_image, w))))"

section \<open>Notions used to state the properties\<close>

text \<open>The world after some more calls.\<close>

definition called :: "call list \<Rightarrow> world \<Rightarrow> world" where
  "called cs w = w\<lparr>calls := calls w @ cs\<rparr>"

definition is_PrintWindow :: "call \<Rightarrow> bool" where
  "is_PrintWindow c = (case c of Call_PrintWindow hwnd \<Rightarrow> True | _ \<Rightarrow> False)"

definition is_recalc :: "call \<Rightarrow> bool" where
  "is_recalc c = (case c of Call_recalc fForce \<Rightarrow> True | _ \<Rightarrow> False)"

text \<open>A call that moves, resizes, maximizes or restores a window.\<close>

definition is_window_call :: "call \<Rightarrow> bool" where
  "is_window_call c =
     (case c of Call_ShowWindow hwnd cmd \<Rightarrow> True | Call_SetWindowPos hwnd cx cy \<Rightarrow> True | _ \<Rightarrow> False)"

text \<open>The calls made so far that move, resize, maximize or restore a window.\<close>

definition window_calls :: "world \<Rightarrow> call list" where
  "window_calls w = filter is_window_call (calls w)"

text \<open>The bitmap of \<^verbatim>\<open>CaptureView\<close> as it is after the paint attempt number \<open>i\<close>.\<close>

definition painted :: "env \<Rightarrow> int32 \<Rightarrow> int32 \<Rightarrow> int32 \<Rightarrow> CImage" where
  "painted e width height i =
     \<lparr>GetWidth = width, GetHeight = height, GetBPP = 32, GetBits = snd (PrintWindow e i)\<rparr>"

text \<open>The attempt number \<open>i\<close> ends the loop of \<^verbatim>\<open>CaptureView\<close>: \<^verbatim>\<open>PrintWindow\<close> succeeds
  and \<^verbatim>\<open>IsImageSameColour\<close> returns false.\<close>

definition accepted :: "env \<Rightarrow> int32 \<Rightarrow> int32 \<Rightarrow> int32 \<Rightarrow> int32 \<Rightarrow> int32 \<Rightarrow> bool" where
  "accepted e width height check_width check_height i =
     (fst (PrintWindow e i)
      \<and> IsImageSameColour (painted e width height i) check_width check_height = Inr False)"

text \<open>The sizes before the ceiling: \<^verbatim>\<open>max(viewWidth, scrollWidth + scrollbarWidth)\<close> and
  the same for the height; and the ceiling.\<close>

definition scrollbar_width :: "env \<Rightarrow> int32 \<times> int32 \<Rightarrow> int32" where
  "scrollbar_width e view_size = c_max 0 (fst view_size - get_clientWidth e)"

definition scrollbar_height :: "env \<Rightarrow> int32 \<times> int32 \<Rightarrow> int32" where
  "scrollbar_height e view_size = c_max 0 (snd view_size - get_clientHeight e)"

definition natural_width :: "env \<Rightarrow> int32 \<times> int32 \<Rightarrow> int32" where
  "natural_width e view_size =
     c_max (fst view_size) (get_scrollWidth e + c_max 0 (fst view_size - get_clientWidth e))"

definition natural_height :: "env \<Rightarrow> int32 \<times> int32 \<Rightarrow> int32" where
  "natural_height e view_size =
     c_max (snd view_size) (get_scrollHeight e + c_max 0 (snd view_size - get_clientHeight e))"

definition clamped :: "int32 \<Rightarrow> int32" where
  "clamped x = (if SIZE_LIMIT <s x then SIZE_LIMIT else x)"

text \<open>The test of the loop that reads the client size again.\<close>

definition client_size_updated :: "locals \<Rightarrow> int32 \<Rightarrow> int32 \<Rightarrow> bool" where
  "client_size_updated l width height =
     ((\<not> is_resized_width l \<or> width \<noteq> clientWidth l)
      \<and> (\<not> is_resized_height l \<or> height \<noteq> clientHeight l))"

text \<open>\<^verbatim>\<open>CaptureBrowser\<close> gets past its early returns, with these two window sizes.\<close>

definition reaches_capture :: "env \<Rightarrow> world \<Rightarrow> int32 \<times> int32 \<Rightarrow> int32 \<times> int32 \<Rightarrow> bool" where
  "reaches_capture e w window_size view_size =
     (GetTopLevelWindowHandle e \<noteq> 0 \<and> GetContentWindowHandle e \<noteq> 0
      \<and> GetDocument e = Inr True \<and> GetCanvas e = Inr True
      \<and> GetWindowSize w (GetTopLevelWindowHandle e) = Some window_size
      \<and> GetWindowSize w (GetContentWindowHandle e) = Some view_size)"

text \<open>
  What holds of the top-level window between the first resize and the
  restoration: the window system is the same, the maximized rectangle is the
  same, and the window is no longer maximized once a resize has been done, and
  untouched before.
\<close>

definition window_invariant :: "HWND \<Rightarrow> window \<Rightarrow> world \<Rightarrow> locals \<times> world \<Rightarrow> bool" where
  "window_invariant h win0 w0 lw =
     (SetWindowPos_outcome (snd lw) = SetWindowPos_outcome w0
      \<and> is_maximized (fst lw) = zoomed win0
      \<and> (\<exists>win. windows (snd lw) h = Some win \<and> maximized_rc win = maximized_rc win0
            \<and> (if is_resized_width (fst lw) \<or> is_resized_height (fst lw)
                then \<not> zoomed win else win = win0)))"

section \<open>Example inputs\<close>

text \<open>
  A window of the given outer size, not maximized, on a 1920 by 1080 screen.
\<close>

definition plain_window :: "int32 \<Rightarrow> int32 \<Rightarrow> window" where
  "plain_window cx cy =
     \<lparr>rc = \<lparr>rc_left = 0, rc_top = 0, rc_right = cx, rc_bottom = cy\<rparr>, zoomed = False,
      restored_rc = \<lparr>rc_left = 0, rc_top = 0, rc_right = cx, rc_bottom = cy\<rparr>,
      maximized_rc = \<lparr>rc_left = 0, rc_top = 0, rc_right = 1920, rc_bottom = 1080\<rparr>\<rparr>"

text \<open>
  The scenario of the specification: the top-level window 1 is 1000 by 700, its
  content window 2 is 984 by 663, the client area is 984 by 646 and the document
  984 by 900. The window system applies every request. After the resize the
  client height is read as 900, and every paint succeeds on a frame that is not
  of one colour.
\<close>

definition scenario_world :: world where
  "scenario_world =
     \<lparr>windows = (\<lambda>hwnd. if hwnd = 1 then Some (plain_window 1000 700)
                         else if hwnd = 2 then Some (plain_window 984 663) else None),
      SetWindowPos_outcome = (\<lambda>log hwnd cx cy. Applied),
      calls = []\<rparr>"

definition scenario_env :: env where
  "scenario_env =
     \<lparr>GetTopLevelWindowHandle = 1, GetContentWindowHandle = 2,
      browser_GetDocument = True, QueryInterface_IHTMLDocument3 = 0, IsStandardsMode = True,
      get_documentElement = 0, documentElement_stored = True,
      get_body = 0, body_stored = True, QueryInterface_IHTMLElement2 = 0,
      get_clientWidth = 984, get_scrollWidth = 984,
      get_clientHeight = 646, get_scrollHeight = 900,
      get_clientWidth_again = (\<lambda>i. 984), get_clientHeight_again = (\<lambda>i. 900),
      Create = (\<lambda>width height. True),
      PrintWindow = (\<lambda>i. (True, \<lambda>y x. x))\<rparr>"

text \<open>The same browser when all its frames are of one colour.\<close>

definition blank_env :: env where
  "blank_env = scenario_env\<lparr>PrintWindow := (\<lambda>i. (True, \<lambda>y x. 7))\<rparr>"

text \<open>A window of 26 by 49 whose content window, client area and document are 10 by 10.\<close>

definition tiny_world :: world where
  "tiny_world =
     \<lparr>windows = (\<lambda>hwnd. if hwnd = 1 then Some (plain_window 26 49)
                         else if hwnd = 2 then Some (plain_window 10 10) else None),
      SetWindowPos_outcome = (\<lambda>log hwnd cx cy. Applied),
      calls = []\<rparr>"

definition tiny_env :: env where
  "tiny_env = scenario_env\<lparr>get_clientWidth := 10, get_scrollWidth := 10,
     get_clientHeight := 10, get_scrollHeight := 10\<rparr>"

text \<open>Frames of one colour in the rows 0 to 699 and of another below.\<close>

definition banded_env :: env where
  "banded_env = scenario_env\<lparr>PrintWindow := (\<lambda>i. (True, \<lambda>y x. if 700 \<le>s y then 1 else 0))\<rparr>"

text \<open>A document without a client area.\<close>

definition empty_env :: env where
  "empty_env = scenario_env\<lparr>get_clientWidth := 0, get_scrollWidth := 0,
     get_clientHeight := 0, get_scrollHeight := 0\<rparr>"

text \<open>A window 70016 wide whose content window is 70000 wide; the document is small.\<close>

definition wide_world :: world where
  "wide_world =
     \<lparr>windows = (\<lambda>hwnd. if hwnd = 1 then Some (plain_window 70016 600)
                         else if hwnd = 2 then Some (plain_window 70000 500) else None),
      SetWindowPos_outcome = (\<lambda>log hwnd cx cy. Applied),
      calls = []\<rparr>"

definition wide_env :: env where
  "wide_env = scenario_env\<lparr>get_clientWidth := 70000, get_scrollWidth := 100,
     get_clientHeight := 500, get_scrollHeight := 100\<rparr>"

text \<open>A document of 100000 by 100000 pixels in the window of the scenario, with a
  vertical scrollbar of 17 pixels.\<close>

definition huge_env :: env where
  "huge_env = scenario_env\<lparr>get_clientWidth := 967, get_scrollWidth := 100000,
     get_clientHeight := 646, get_scrollHeight := 100000\<rparr>"

text \<open>A document that fits its client area of 967 by 663 beside a vertical
  scrollbar of 17 pixels.\<close>

definition fitting_env :: env where
  "fitting_env = scenario_env\<lparr>get_clientWidth := 967, get_scrollWidth := 967,
     get_clientHeight := 663, get_scrollHeight := 663\<rparr>"

text \<open>A document of 967 by 2000 in a client area of 967 by 646, with both scrollbars.\<close>

definition scrolling_env :: env where
  "scrolling_env = scenario_env\<lparr>get_clientWidth := 967, get_scrollWidth := 967,
     get_clientHeight := 646, get_scrollHeight := 2000\<rparr>"

text \<open>A document of 980 by 646 in a client area of 967 by 646, with both scrollbars.\<close>

definition overflowing_env :: env where
  "overflowing_env = scenario_env\<lparr>get_clientWidth := 967, get_scrollWidth := 980,
     get_clientHeight := 646, get_scrollHeight := 646,
     get_clientWidth_again := (\<lambda>i. 980), get_clientHeight_again := (\<lambda>i. 663)\<rparr>"

text \<open>The first and the second run of \<^verbatim>\<open>CaptureBrowser\<close> in \<^verbatim>\<open>ExecuteInternal\<close>; the
  second starts from the world the first has left, after \<^verbatim>\<open>ClearImage\<close>.\<close>

definition first_try ::
  "executor \<Rightarrow> CImage option \<Rightarrow> world \<Rightarrow> (exn + HRESULT) \<times> CImage option \<times> world" where
  "first_try x this_image w = CaptureBrowser (browser_at x 1) this_image w"

definition second_try ::
  "executor \<Rightarrow> CImage option \<Rightarrow> world \<Rightarrow> (exn + HRESULT) \<times> CImage option \<times> world" where
  "second_try x this_image w =
     CaptureBrowser (browser_at x 2) None (snd (snd (first_try x this_image w)))"

definition try_succeeded :: "(exn + HRESULT) \<times> CImage option \<times> world \<Rightarrow> bool" where
  "try_succeeded a = (case fst a of Inl ex \<Rightarrow> False | Inr hr \<Rightarrow> SUCCEEDED hr)"

definition try_failed :: "(exn + HRESULT) \<times> CImage option \<times> world \<Rightarrow> bool" where
  "try_failed a = (case fst a of Inl ex \<Rightarrow> False | Inr hr \<Rightarrow> \<not> SUCCEEDED hr)"

text \<open>The loop of \<^verbatim>\<open>ExecuteInternal\<close> ends at its \<^verbatim>\<open>break\<close>.\<close>

definition capture_succeeded :: "executor \<Rightarrow> CImage option \<Rightarrow> world \<Rightarrow> bool" where
  "capture_succeeded x this_image w =
     (try_succeeded (first_try x this_image w)
      \<or> (try_failed (first_try x this_image w) \<and> try_succeeded (second_try x this_image w)))"

text \<open>The run whose image is encoded: the first when it succeeds, the second otherwise.\<close>

definition last_try ::
  "executor \<Rightarrow> CImage option \<Rightarrow> world \<Rightarrow> (exn + HRESULT) \<times> CImage option \<times> world" where
  "last_try x this_image w =
     (if try_succeeded (first_try x this_image w) then first_try x this_image w
      else second_try x this_image w)"

text \<open>The call that restores the browser: a window that was maximized is maximized
  again, another one is given its size again.\<close>

definition restoring_call :: "HWND \<Rightarrow> bool \<Rightarrow> int32 \<times> int32 \<Rightarrow> call" where
  "restoring_call h was_zoomed window_size =
     (if was_zoomed then Call_ShowWindow h SW_MAXIMIZE
      else Call_SetWindowPos h (fst window_size) (snd window_size))"

text \<open>A window system that refuses every request for a height of 700.\<close>

definition stubborn_world :: world where
  "stubborn_world = scenario_world\<lparr>SetWindowPos_outcome :=
     (\<lambda>log hwnd cx cy. if cy = 700 then Refused else Applied)\<rparr>"

text \<open>
  A request in the scenario: the browser is found, the PNG stream holds four
  bytes, and the encoder writes their eight base64 characters.
\<close>

definition scenario_executor :: executor where
  "scenario_executor =
     \<lparr>WD_SUCCESS = 0, GetCurrentBrowser = 0, browser_at = (\<lambda>i. scenario_env),
      CreateStreamOnHGlobal = 0,
      Save = (\<lambda>img. (0, [137, 80, 78, 71])),
      Stat = 0, GetHGlobalFromStream = 0,
      Base64EncodeGetRequiredLength = (\<lambda>n. if n \<le>s 0 then 0 else 8),
      GlobalLock = True,
      Base64Encode = (\<lambda>src cap. if src = [] then Some [] else Some ''iVBORw=='')\<rparr>"

text \<open>
  The same request when the browser shows no HTML document: the wrapper leaves
  the document pointer null.
\<close>

definition null_document_env :: env where
  "null_document_env = scenario_env\<lparr>browser_GetDocument := False\<rparr>"

definition null_document_executor :: executor where
  "null_document_executor = scenario_executor\<lparr>browser_at := (\<lambda>i. null_document_env)\<rparr>"

text \<open>A document in compatible mode whose \<^verbatim>\<open>get_body\<close> succeeds and stores no element.\<close>

definition null_body_env :: env where
  "null_body_env = scenario_env\<lparr>IsStandardsMode := False, body_stored := False\<rparr>"

definition null_body_executor :: executor where
  "null_body_executor = scenario_executor\<lparr>browser_at := (\<lambda>i. null_body_env)\<rparr>"

text \<open>
  A view height of -2147483648 beside a vertical scrollbar of 17 pixels, and a
  document one pixel higher than the view.
\<close>

definition wrapping_env :: env where
  "wrapping_env = scenario_env\<lparr>get_clientWidth := 967, get_scrollWidth := 967,
     get_clientHeight := 0, get_scrollHeight := - 2147483647\<rparr>"

text \<open>
  The window of the scenario when it is maximized on a 1920 by 1080 screen, with
  a content window of 1904 by 1043; unmaximized it would be 1000 by 700.
\<close>

definition maximized_world :: world where
  "maximized_world =
     \<lparr>windows = (\<lambda>hwnd. if hwnd = 1
                          then Some ((plain_window 1000 700)\<lparr>rc := maximized_rc (plain_window 1000 700),
                                       zoomed := True\<rparr>)
                         else if hwnd = 2 then Some (plain_window 1904 1043) else None),
      SetWindowPos_outcome = (\<lambda>log hwnd cx cy. Applied),
      calls = []\<rparr>"

definition maximized_env :: env where
  "maximized_env = scenario_env\<lparr>get_clientWidth := 1904, get_scrollWidth := 1904,
     get_clientHeight := 1043, get_scrollHeight := 3000,
     get_clientWidth_again := (\<lambda>i. 1904), get_clientHeight_again := (\<lambda>i. 3000)\<rparr>"

section \<open>Auxiliary facts\<close>

lemmas signed_compare = word_sless_alt word_sle_eq

declare columns_same.simps [simp del] rows_same.simps [simp del] capture_tries.simps [simp del]
  read_client_size.simps [simp del] capture_loop.simps [simp del]

subsection \<open>The pixel loops\<close>

lemma sint_suc_less: "sint (x::int32) < sint (b::int32) \<Longrightarrow> sint (x + 1) = sint x + 1"
proof -
  assume lt: "sint x < sint b"
  have "sint b < 2 ^ 31" "- (2 ^ 31) \<le> sint x"
    using sint_lt [of b] sint_ge [of x] by simp_all
  with lt show ?thesis
    by (simp add: sint_word_ariths signed_take_bit_int_eq_self)
qed

lemma columns_same_iff:
  "columns_same first_pixel ptr width x
     = (\<forall>x'. sint x \<le> sint x' \<and> sint x' < sint width \<longrightarrow> ptr x' = first_pixel)"
proof (induction first_pixel ptr width x rule: columns_same.induct)
  case (1 first_pixel ptr width x)
  show ?case
  proof (cases "x <s width")
    case False
    then show ?thesis
      by (subst columns_same.simps) (auto simp: signed_compare)
  next
    case True
    then have lt: "sint x < sint width"
      by (simp add: signed_compare)
    then have suc: "sint (x + 1) = sint x + 1"
      by (rule sint_suc_less)
    show ?thesis
    proof (cases "first_pixel = ptr x")
      case False
      with True lt show ?thesis
        by (subst columns_same.simps) auto
    next
      case eq: True
      have "columns_same first_pixel ptr width x = columns_same first_pixel ptr width (x + 1)"
        using True eq by (subst columns_same.simps) simp
      also have "\<dots> = (\<forall>x'. sint (x + 1) \<le> sint x' \<and> sint x' < sint width \<longrightarrow> ptr x' = first_pixel)"
        using "1.IH" True eq by simp
      also have "\<dots> = (\<forall>x'. sint x \<le> sint x' \<and> sint x' < sint width \<longrightarrow> ptr x' = first_pixel)"
      proof (intro iffI allI impI)
        fix x' :: int32
        assume h: "\<forall>x'. sint (x + 1) \<le> sint x' \<and> sint x' < sint width \<longrightarrow> ptr x' = first_pixel"
          and r: "sint x \<le> sint x' \<and> sint x' < sint width"
        show "ptr x' = first_pixel"
        proof (cases "x' = x")
          case True
          with eq show ?thesis by simp
        next
          case False
          then have "sint x' \<noteq> sint x"
            using signed_word_eqI [of x' x] by auto
          with r suc have "sint (x + 1) \<le> sint x'" by simp
          with h r show ?thesis by blast
        qed
      next
        fix x' :: int32
        assume h: "\<forall>x'. sint x \<le> sint x' \<and> sint x' < sint width \<longrightarrow> ptr x' = first_pixel"
          and r: "sint (x + 1) \<le> sint x' \<and> sint x' < sint width"
        with suc have "sint x \<le> sint x' \<and> sint x' < sint width" by simp
        with h show "ptr x' = first_pixel" by blast
      qed
      finally show ?thesis .
    qed
  qed
qed

lemma rows_same_iff:
  "rows_same img first_pixel width height y
     = (\<forall>y' x'. sint y \<le> sint y' \<and> sint y' < sint height \<and> 0 \<le> sint x' \<and> sint x' < sint width
          \<longrightarrow> GetBits img y' x' = first_pixel)"
proof (induction img first_pixel width height y rule: rows_same.induct)
  case (1 img first_pixel width height y)
  show ?case
  proof (cases "y <s height")
    case False
    then show ?thesis
      by (subst rows_same.simps) (auto simp: signed_compare)
  next
    case True
    then have lt: "sint y < sint height"
      by (simp add: signed_compare)
    then have suc: "sint (y + 1) = sint y + 1"
      by (rule sint_suc_less)
    show ?thesis
    proof (cases "columns_same first_pixel (GetBits img y) width 0")
      case False
      with True lt show ?thesis
        by (subst rows_same.simps) (auto simp: columns_same_iff)
    next
      case row: True
      have "rows_same img first_pixel width height y = rows_same img first_pixel width height (y + 1)"
        using True row by (subst rows_same.simps) simp
      also have "\<dots> = (\<forall>y' x'. sint (y + 1) \<le> sint y' \<and> sint y' < sint height
            \<and> 0 \<le> sint x' \<and> sint x' < sint width \<longrightarrow> GetBits img y' x' = first_pixel)"
        using "1.IH" True row by simp
      also have "\<dots> = (\<forall>y' x'. sint y \<le> sint y' \<and> sint y' < sint height
            \<and> 0 \<le> sint x' \<and> sint x' < sint width \<longrightarrow> GetBits img y' x' = first_pixel)"
      proof (intro iffI allI impI)
        fix y' x' :: int32
        assume h: "\<forall>y' x'. sint (y + 1) \<le> sint y' \<and> sint y' < sint height
            \<and> 0 \<le> sint x' \<and> sint x' < sint width \<longrightarrow> GetBits img y' x' = first_pixel"
          and r: "sint y \<le> sint y' \<and> sint y' < sint height \<and> 0 \<le> sint x' \<and> sint x' < sint width"
        show "GetBits img y' x' = first_pixel"
        proof (cases "y' = y")
          case True
          with row r show ?thesis
            by (simp add: columns_same_iff)
        next
          case False
          then have "sint y' \<noteq> sint y"
            using signed_word_eqI [of y' y] by auto
          with r suc have "sint (y + 1) \<le> sint y'" by simp
          with h r show ?thesis by blast
        qed
      next
        fix y' x' :: int32
        assume h: "\<forall>y' x'. sint y \<le> sint y' \<and> sint y' < sint height
            \<and> 0 \<le> sint x' \<and> sint x' < sint width \<longrightarrow> GetBits img y' x' = first_pixel"
          and r: "sint (y + 1) \<le> sint y' \<and> sint y' < sint height \<and> 0 \<le> sint x' \<and> sint x' < sint width"
        with suc have "sint y \<le> sint y' \<and> sint y' < sint height \<and> 0 \<le> sint x' \<and> sint x' < sint width"
          by simp
        with h show "GetBits img y' x' = first_pixel" by blast
      qed
      finally show ?thesis .
    qed
  qed
qed

lemma IsImageSameColour_iff:
  "GetBPP img = 32 \<Longrightarrow>
   IsImageSameColour img check_width check_height =
     Inr (\<forall>y x. 0 \<le>s y \<and> y <s c_min check_height (GetHeight img)
              \<and> 0 \<le>s x \<and> x <s c_min check_width (GetWidth img)
            \<longrightarrow> GetBits img y x = GetBits img 0 0)"
  by (simp add: IsImageSameColour_def rows_same_iff signed_compare)

subsection \<open>The paint attempts\<close>

lemma CaptureView_no_image:
  "\<not> Create e width height \<Longrightarrow>
   CaptureView e view_handle width height check_width check_height w = (Inr None, w)"
  by (simp add: CaptureView_def)

lemma capture_tries_step:
  assumes "i \<le>s 3"
  shows "capture_tries e v cw ch i \<lparr>GetWidth = width, GetHeight = height, GetBPP = 32, GetBits = b\<rparr> w =
     (if accepted e width height cw ch i
      then (Inr (painted e width height i), called [Call_PrintWindow v] w)
      else capture_tries e v cw ch (i + 1) (painted e width height i)
             (called [Call_PrintWindow v, Call_UpdateWindow v] w))"
  using assms
  by (subst capture_tries.simps)
    (simp add: accepted_def painted_def IsImageSameColour_def called_def record_call_def Let_def
      split: prod.splits)

lemma capture_tries_end:
  "\<not> i \<le>s 3 \<Longrightarrow> capture_tries e v cw ch i img w = (Inr img, w)"
  by (subst capture_tries.simps) simp

lemma CaptureView_image:
  assumes "Create e width height"
  shows "CaptureView e v width height cw ch w =
     (if accepted e width height cw ch 1
      then (Inr (Some (painted e width height 1)), called [Call_PrintWindow v] w)
      else if accepted e width height cw ch 2
      then (Inr (Some (painted e width height 2)),
            called [Call_PrintWindow v, Call_UpdateWindow v, Call_PrintWindow v] w)
      else if accepted e width height cw ch 3
      then (Inr (Some (painted e width height 3)),
            called [Call_PrintWindow v, Call_UpdateWindow v, Call_PrintWindow v,
                    Call_UpdateWindow v, Call_PrintWindow v] w)
      else (Inr (Some (painted e width height 3)),
            called [Call_PrintWindow v, Call_UpdateWindow v, Call_PrintWindow v,
                    Call_UpdateWindow v, Call_PrintWindow v, Call_UpdateWindow v] w))"
proof -
  have le: "(1::int32) \<le>s 3" "(2::int32) \<le>s 3" "(3::int32) \<le>s 3" "\<not> (4::int32) \<le>s 3"
    by (simp_all add: signed_compare)
  have p: "painted e width height i
      = \<lparr>GetWidth = width, GetHeight = height, GetBPP = 32, GetBits = snd (PrintWindow e i)\<rparr>" for i
    by (simp add: painted_def)
  have s3: "capture_tries e v cw ch 3 (painted e width height 2) w' =
     (if accepted e width height cw ch 3
      then (Inr (painted e width height 3), called [Call_PrintWindow v] w')
      else (Inr (painted e width height 3), called [Call_PrintWindow v, Call_UpdateWindow v] w'))" for w'
    using capture_tries_step [OF le(3), of e v cw ch width height "snd (PrintWindow e 2)" w']
      capture_tries_end [OF le(4), of e v cw ch "painted e width height 3"]
    by (simp add: p)
  have s2: "capture_tries e v cw ch 2 (painted e width height 1) w' =
     (if accepted e width height cw ch 2
      then (Inr (painted e width height 2), called [Call_PrintWindow v] w')
      else capture_tries e v cw ch 3 (painted e width height 2)
             (called [Call_PrintWindow v, Call_UpdateWindow v] w'))" for w'
    using capture_tries_step [OF le(2), of e v cw ch width height "snd (PrintWindow e 1)" w']
    by (simp add: p)
  show ?thesis
    using assms capture_tries_step [OF le(1), of e v cw ch width height "\<lambda>y x. 0" w]
    by (simp add: CaptureView_def s2 s3 called_def)
qed

subsection \<open>The sizes\<close>

lemma read_client_size_0:
  "read_client_size e 0 (l, w) =
     (if client_size_updated l (get_clientWidth_again e 0) (get_clientHeight_again e 0)
      then (l\<lparr>targetClientWidth := get_clientWidth_again e 0,
              targetClientHeight := get_clientHeight_again e 0\<rparr>, w)
      else if client_size_updated l (get_clientWidth_again e 1) (get_clientHeight_again e 1)
      then (l\<lparr>targetClientWidth := get_clientWidth_again e 1,
              targetClientHeight := get_clientHeight_again e 1\<rparr>,
            called [Call_recalc False] w)
      else (l\<lparr>targetClientWidth := get_clientWidth_again e 1,
              targetClientHeight := get_clientHeight_again e 1\<rparr>,
            called [Call_recalc False, Call_recalc True] w))"
  by (simp add: read_client_size.simps [of _ 0] read_client_size.simps [of _ 1]
      read_client_size.simps [of _ 2] client_size_updated_def called_def record_call_def signed_compare Let_def)

lemma final_client_size_shape:
  "\<exists>a b cs. final_client_size e (l, w)
       = (l\<lparr>targetClientWidth := a, targetClientHeight := b\<rparr>, called cs w)
     \<and> (\<forall>c \<in> set cs. is_recalc c)
     \<and> (\<not> is_resized_width l \<and> \<not> is_resized_height l \<longrightarrow> cs = [])"
proof -
  define l' where "l' = l\<lparr>targetClientWidth := clientWidth l, targetClientHeight := clientHeight l\<rparr>"
  define r where "r \<longleftrightarrow> is_resized_width l \<or> is_resized_height l"
  define u0 where "u0 \<longleftrightarrow> client_size_updated l' (get_clientWidth_again e 0) (get_clientHeight_again e 0)"
  define u1 where "u1 \<longleftrightarrow> client_size_updated l' (get_clientWidth_again e 1) (get_clientHeight_again e 1)"
  define a where "a = (if \<not> r then clientWidth l else if u0 then get_clientWidth_again e 0
    else get_clientWidth_again e 1)"
  define b where "b = (if \<not> r then clientHeight l else if u0 then get_clientHeight_again e 0
    else get_clientHeight_again e 1)"
  define cs where "cs = (if \<not> r \<or> u0 then [] else if u1 then [Call_recalc False]
    else [Call_recalc False, Call_recalc True])"
  have "final_client_size e (l, w) = (l\<lparr>targetClientWidth := a, targetClientHeight := b\<rparr>, called cs w)"
    by (simp add: final_client_size_def read_client_size_0 a_def b_def cs_def called_def
        flip: l'_def r_def u0_def u1_def) (simp add: l'_def r_def)
  moreover have "\<forall>c \<in> set cs. is_recalc c"
    by (simp add: cs_def is_recalc_def)
  moreover have "\<not> is_resized_width l \<and> \<not> is_resized_height l \<longrightarrow> cs = []"
    by (simp add: cs_def r_def)
  ultimately show ?thesis
    by blast
qed

lemma natural_width_eq:
  "natural_width e vs = c_max (fst vs) (get_scrollWidth e + scrollbar_width e vs)"
  by (simp add: natural_width_def scrollbar_width_def)

lemma increase_width_fields:
  fixes e h lw
  defines "l \<equiv> fst lw" and "l' \<equiv> fst (increase_width e h lw)"
  defines "n \<equiv> c_max (viewWidth l) (get_scrollWidth e + c_max 0 (viewWidth l - get_clientWidth e))"
  shows "windowWidth l' = windowWidth l" "windowHeight l' = windowHeight l"
    "viewWidth l' = viewWidth l" "viewHeight l' = viewHeight l"
    "is_maximized l' = is_maximized l"
    "clientWidth l' = get_clientWidth e"
    "scrollbarWidth l' = c_max 0 (viewWidth l - get_clientWidth e)"
    "scrollbarHeight l' = scrollbarHeight l"
    "is_resized_width l' = (if viewWidth l <s n then True else is_resized_width l)"
    "is_resized_height l' = is_resized_height l"
    "targetViewWidth l' = (if viewWidth l <s n then clamped n else n)"
    "targetWindowWidth l' = (if viewWidth l <s n
       then targetWindowWidth l + (clamped n - viewWidth l) else targetWindowWidth l)"
    "targetWindowHeight l' = targetWindowHeight l"
  unfolding l_def l'_def n_def
  by (cases lw; simp add: increase_width_def Let_def clamped_def)+

lemma increase_height_fields:
  fixes e h lw
  defines "l \<equiv> fst lw" and "l' \<equiv> fst (increase_height e h lw)"
  defines "n \<equiv> c_max (viewHeight l) (get_scrollHeight e + c_max 0 (viewHeight l - get_clientHeight e))"
  shows "windowWidth l' = windowWidth l" "windowHeight l' = windowHeight l"
    "viewWidth l' = viewWidth l" "viewHeight l' = viewHeight l"
    "is_maximized l' = is_maximized l"
    "clientWidth l' = clientWidth l" "clientHeight l' = get_clientHeight e"
    "scrollbarWidth l' = scrollbarWidth l"
    "scrollbarHeight l' = c_max 0 (viewHeight l - get_clientHeight e)"
    "is_resized_width l' = is_resized_width l"
    "is_resized_height l' = (if viewHeight l <s n then True else is_resized_height l)"
    "targetViewWidth l' = targetViewWidth l"
    "targetViewHeight l' = (if viewHeight l <s n
       then (if 0 <s scrollbarWidth l then clamped n - 2 else clamped n) else n)"
    "targetWindowWidth l' = targetWindowWidth l"
    "targetWindowHeight l' = (if viewHeight l <s n
       then targetWindowHeight l + ((if 0 <s scrollbarWidth l then clamped n - 2 else clamped n)
              - viewHeight l)
       else targetWindowHeight l)"
  unfolding l_def l'_def n_def
  by (cases lw; simp add: increase_height_def Let_def clamped_def)+

lemma increased_fields:
  fixes e ws vs w
  defines "l \<equiv> fst (increase_height e (GetTopLevelWindowHandle e)
      (increase_width e (GetTopLevelWindowHandle e)
         (initial_locals w (GetTopLevelWindowHandle e) ws vs, w)))"
  shows "windowWidth l = fst ws" "windowHeight l = snd ws"
    "viewWidth l = fst vs" "viewHeight l = snd vs"
    "is_maximized l = IsZoomed w (GetTopLevelWindowHandle e)"
    "clientWidth l = get_clientWidth e" "clientHeight l = get_clientHeight e"
    "scrollbarWidth l = scrollbar_width e vs"
    "scrollbarHeight l = scrollbar_height e vs"
    "is_resized_width l = (fst vs <s natural_width e vs)"
    "is_resized_height l = (snd vs <s natural_height e vs)"
    "targetViewWidth l = (if fst vs <s natural_width e vs then clamped (natural_width e vs)
       else natural_width e vs)"
    "targetViewHeight l = (if snd vs <s natural_height e vs
       then (if 0 <s scrollbar_width e vs then clamped (natural_height e vs) - 2
             else clamped (natural_height e vs))
       else natural_height e vs)"
    "targetWindowWidth l = (if fst vs <s natural_width e vs
       then fst ws + (clamped (natural_width e vs) - fst vs) else fst ws)"
    "targetWindowHeight l = (if snd vs <s natural_height e vs
       then snd ws + ((if 0 <s scrollbar_width e vs then clamped (natural_height e vs) - 2
             else clamped (natural_height e vs)) - snd vs) else snd ws)"
  unfolding l_def
  by (simp_all add: increase_height_fields increase_width_fields initial_locals_def
      natural_width_def natural_height_def scrollbar_width_def scrollbar_height_def)

lemma read_sizes_fields:
  fixes e ws vs w
  defines "l \<equiv> fst (read_sizes e ws vs w)"
  shows "windowWidth l = fst ws" "windowHeight l = snd ws"
    "viewWidth l = fst vs" "viewHeight l = snd vs"
    "is_maximized l = IsZoomed w (GetTopLevelWindowHandle e)"
    "clientWidth l = get_clientWidth e" "clientHeight l = get_clientHeight e"
    "scrollbarWidth l = scrollbar_width e vs"
    "scrollbarHeight l = scrollbar_height e vs"
    "is_resized_width l = (fst vs <s natural_width e vs)"
    "is_resized_height l = (snd vs <s natural_height e vs)"
    "targetViewWidth l = (if fst vs <s natural_width e vs then clamped (natural_width e vs)
       else natural_width e vs)"
    "targetViewHeight l = (if snd vs <s natural_height e vs
       then (if 0 <s scrollbar_width e vs then clamped (natural_height e vs) - 2
             else clamped (natural_height e vs))
       else natural_height e vs)"
    "targetWindowWidth l = (if fst vs <s natural_width e vs
       then fst ws + (clamped (natural_width e vs) - fst vs) else fst ws)"
    "targetWindowHeight l = (if snd vs <s natural_height e vs
       then snd ws + ((if 0 <s scrollbar_width e vs then clamped (natural_height e vs) - 2
             else clamped (natural_height e vs)) - snd vs) else snd ws)"
proof -
  define lw where "lw = increase_height e (GetTopLevelWindowHandle e)
      (increase_width e (GetTopLevelWindowHandle e)
         (initial_locals w (GetTopLevelWindowHandle e) ws vs, w))"
  obtain a b cs where "final_client_size e (fst lw, snd lw)
      = ((fst lw)\<lparr>targetClientWidth := a, targetClientHeight := b\<rparr>, called cs (snd lw))"
    using final_client_size_shape [of e "fst lw" "snd lw"] by blast
  then have l: "l = (fst lw)\<lparr>targetClientWidth := a, targetClientHeight := b\<rparr>"
    by (simp add: l_def read_sizes_def Let_def lw_def)
  note f = increased_fields [of e w ws vs, folded lw_def]
  show "windowWidth l = fst ws" "windowHeight l = snd ws"
    "viewWidth l = fst vs" "viewHeight l = snd vs"
    "is_maximized l = IsZoomed w (GetTopLevelWindowHandle e)"
    "clientWidth l = get_clientWidth e" "clientHeight l = get_clientHeight e"
    "scrollbarWidth l = scrollbar_width e vs"
    "scrollbarHeight l = scrollbar_height e vs"
    "is_resized_width l = (fst vs <s natural_width e vs)"
    "is_resized_height l = (snd vs <s natural_height e vs)"
    "targetViewWidth l = (if fst vs <s natural_width e vs then clamped (natural_width e vs)
       else natural_width e vs)"
    "targetViewHeight l = (if snd vs <s natural_height e vs
       then (if 0 <s scrollbar_width e vs then clamped (natural_height e vs) - 2
             else clamped (natural_height e vs))
       else natural_height e vs)"
    "targetWindowWidth l = (if fst vs <s natural_width e vs
       then fst ws + (clamped (natural_width e vs) - fst vs) else fst ws)"
    "targetWindowHeight l = (if snd vs <s natural_height e vs
       then snd ws + ((if 0 <s scrollbar_width e vs then clamped (natural_height e vs) - 2
             else clamped (natural_height e vs)) - snd vs) else snd ws)"
    unfolding l by (simp_all add: f)
qed

subsection \<open>The top-level window\<close>

lemma record_call_simps [simp]:
  "windows (record_call c w) = windows w"
  "SetWindowPos_outcome (record_call c w) = SetWindowPos_outcome w"
  "calls (record_call c w) = calls w @ [c]"
  by (simp_all add: record_call_def)

lemma called_simps [simp]:
  "windows (called cs w) = windows w"
  "SetWindowPos_outcome (called cs w) = SetWindowPos_outcome w"
  "calls (called cs w) = calls w @ cs"
  by (simp_all add: called_def)

lemma snd_SetWindowSize:
  "snd (SetWindowSize h cx cy w) = snd (SetWindowPos h cx cy w)"
  by (simp add: SetWindowSize_def split_def Let_def)

lemma SetWindowSize_outcome [simp]:
  "SetWindowPos_outcome (snd (SetWindowSize h cx cy w)) = SetWindowPos_outcome w"
  by (simp add: SetWindowSize_def SetWindowPos_def Let_def split: option.splits swp_outcome.splits)

lemma ShowWindow_outcome [simp]:
  "SetWindowPos_outcome (ShowWindow h cmd w) = SetWindowPos_outcome w"
  by (simp add: ShowWindow_def Let_def split: option.splits)

lemma SetWindowSize_calls [simp]:
  "calls (snd (SetWindowSize h cx cy w)) = calls w @ [Call_SetWindowPos h cx cy]"
  by (simp add: SetWindowSize_def SetWindowPos_def Let_def split: option.splits swp_outcome.splits)

lemma ShowWindow_calls [simp]:
  "calls (ShowWindow h cmd w) = calls w @ [Call_ShowWindow h cmd]"
  by (simp add: ShowWindow_def Let_def split: option.splits)

lemma SetWindowSize_window:
  assumes win: "windows w h = Some win"
  shows "\<exists>r. windows (snd (SetWindowSize h cx cy w)) h = Some (win\<lparr>rc := r\<rparr>)"
proof (cases "SetWindowPos_outcome w (calls w) h cx cy")
  case Applied
  with win have "windows (snd (SetWindowSize h cx cy w)) h
      = Some (win\<lparr>rc := resized (rc win) cx cy\<rparr>)"
    by (simp add: snd_SetWindowSize SetWindowPos_def Let_def)
  then show ?thesis ..
next
  case Refused
  with win have "windows (snd (SetWindowSize h cx cy w)) h = Some (win\<lparr>rc := rc win\<rparr>)"
    by (simp add: snd_SetWindowSize SetWindowPos_def Let_def)
  then show ?thesis ..
next
  case (Adjusted cx' cy')
  with win have "windows (snd (SetWindowSize h cx cy w)) h
      = Some (win\<lparr>rc := resized (rc win) cx' cy'\<rparr>)"
    by (simp add: snd_SetWindowSize SetWindowPos_def Let_def)
  then show ?thesis ..
qed

lemma SetWindowSize_applied:
  "windows w h = Some win \<Longrightarrow> SetWindowPos_outcome w (calls w) h cx cy = Applied \<Longrightarrow>
   windows (snd (SetWindowSize h cx cy w)) h = Some (win\<lparr>rc := resized (rc win) cx cy\<rparr>)"
  by (simp add: snd_SetWindowSize SetWindowPos_def Let_def)

lemma ShowWindow_window:
  "windows w h = Some win \<Longrightarrow> windows (ShowWindow h cmd w) h = Some (show_window cmd win)"
  by (simp add: ShowWindow_def Let_def)

lemma GetWindowSize_resized:
  "windows w h = Some win \<Longrightarrow> rc win = resized r cx cy \<Longrightarrow> GetWindowSize w h = Some (cx, cy)"
  by (simp add: GetWindowSize_def GetWindowRect_def resized_def)

lemma increase_width_invariant:
  assumes "window_invariant h win0 w0 lw"
  shows "window_invariant h win0 w0 (increase_width e h lw)"
proof -
  obtain l w where lw: "lw = (l, w)" by (cases lw)
  from assms lw obtain win where
    sys: "SetWindowPos_outcome w = SetWindowPos_outcome w0"
    and mx: "is_maximized l = zoomed win0"
    and win: "windows w h = Some win" "maximized_rc win = maximized_rc win0"
    and z: "if is_resized_width l \<or> is_resized_height l then \<not> zoomed win else win = win0"
    by (auto simp: window_invariant_def)
  define n where "n = c_max (viewWidth l) (get_scrollWidth e + c_max 0 (viewWidth l - get_clientWidth e))"
  show ?thesis
  proof (cases "viewWidth l <s n")
    case False
    then have "snd (increase_width e h lw) = w"
      by (simp add: lw increase_width_def Let_def n_def)
    moreover have "is_resized_width (fst (increase_width e h lw)) = is_resized_width l"
      "is_resized_height (fst (increase_width e h lw)) = is_resized_height l"
      "is_maximized (fst (increase_width e h lw)) = is_maximized l"
      using False by (simp_all add: increase_width_fields lw flip: n_def)
    ultimately show ?thesis
      using sys mx win z by (simp add: window_invariant_def)
  next
    case True
    define w1 where "w1 = (if is_maximized l then ShowWindow h SW_SHOWNOACTIVATE w else w)"
    obtain win1 where win1: "windows w1 h = Some win1" "maximized_rc win1 = maximized_rc win0"
      "\<not> zoomed win1"
      using win z mx
      by (cases "is_maximized l")
        (auto simp: w1_def ShowWindow_window show_window_def split: if_splits)
    have "\<exists>cx cy. snd (increase_width e h lw) = snd (SetWindowSize h cx cy w1)"
      using True by (auto simp: lw increase_width_def Let_def w1_def simp flip: n_def)
    then obtain cx cy where s: "snd (increase_width e h lw) = snd (SetWindowSize h cx cy w1)"
      by blast
    obtain r where "windows (snd (SetWindowSize h cx cy w1)) h = Some (win1\<lparr>rc := r\<rparr>)"
      using SetWindowSize_window [OF win1(1)] by blast
    moreover have "SetWindowPos_outcome w1 = SetWindowPos_outcome w0"
      by (simp add: w1_def sys)
    moreover have "is_resized_width (fst (increase_width e h lw))"
      "is_maximized (fst (increase_width e h lw)) = is_maximized l"
      using True by (simp_all add: increase_width_fields lw flip: n_def)
    ultimately show ?thesis
      using win1 mx by (simp add: window_invariant_def s)
  qed
qed

lemma increase_height_invariant:
  assumes "window_invariant h win0 w0 lw"
  shows "window_invariant h win0 w0 (increase_height e h lw)"
proof -
  obtain l w where lw: "lw = (l, w)" by (cases lw)
  from assms lw obtain win where
    sys: "SetWindowPos_outcome w = SetWindowPos_outcome w0"
    and mx: "is_maximized l = zoomed win0"
    and win: "windows w h = Some win" "maximized_rc win = maximized_rc win0"
    and z: "if is_resized_width l \<or> is_resized_height l then \<not> zoomed win else win = win0"
    by (auto simp: window_invariant_def)
  define n where "n = c_max (viewHeight l) (get_scrollHeight e + c_max 0 (viewHeight l - get_clientHeight e))"
  show ?thesis
  proof (cases "viewHeight l <s n")
    case False
    then have "snd (increase_height e h lw) = w"
      by (simp add: lw increase_height_def Let_def n_def)
    moreover have "is_resized_width (fst (increase_height e h lw)) = is_resized_width l"
      "is_resized_height (fst (increase_height e h lw)) = is_resized_height l"
      "is_maximized (fst (increase_height e h lw)) = is_maximized l"
      using False by (simp_all add: increase_height_fields lw flip: n_def)
    ultimately show ?thesis
      using sys mx win z by (simp add: window_invariant_def)
  next
    case True
    define w1 where "w1 = (if is_maximized l \<and> \<not> is_resized_width l
      then ShowWindow h SW_SHOWNOACTIVATE w else w)"
    obtain win1 where win1: "windows w1 h = Some win1" "maximized_rc win1 = maximized_rc win0"
      "\<not> zoomed win1"
      using win z mx
      by (cases "is_maximized l \<and> \<not> is_resized_width l")
        (auto simp: w1_def ShowWindow_window show_window_def split: if_splits)
    have "\<exists>cx cy. snd (increase_height e h lw) = snd (SetWindowSize h cx cy w1)"
      using True by (auto simp: lw increase_height_def Let_def w1_def simp flip: n_def)
    then obtain cx cy where s: "snd (increase_height e h lw) = snd (SetWindowSize h cx cy w1)"
      by blast
    obtain r where "windows (snd (SetWindowSize h cx cy w1)) h = Some (win1\<lparr>rc := r\<rparr>)"
      using SetWindowSize_window [OF win1(1)] by blast
    moreover have "SetWindowPos_outcome w1 = SetWindowPos_outcome w0"
      by (simp add: w1_def sys)
    moreover have "is_resized_height (fst (increase_height e h lw))"
      "is_maximized (fst (increase_height e h lw)) = is_maximized l"
      using True by (simp_all add: increase_height_fields lw flip: n_def)
    ultimately show ?thesis
      using win1 mx by (simp add: window_invariant_def s)
  qed
qed

lemma final_client_size_invariant:
  assumes "window_invariant h win0 w0 lw"
  shows "window_invariant h win0 w0 (final_client_size e lw)"
proof -
  obtain a b cs where "final_client_size e (fst lw, snd lw)
      = ((fst lw)\<lparr>targetClientWidth := a, targetClientHeight := b\<rparr>, called cs (snd lw))"
    using final_client_size_shape [of e "fst lw" "snd lw"] by blast
  with assms show ?thesis
    by (simp add: window_invariant_def)
qed

lemma ensure_client_area_fields [simp]:
  "windowWidth (ensure_client_area l) = windowWidth l"
  "windowHeight (ensure_client_area l) = windowHeight l"
  "viewWidth (ensure_client_area l) = viewWidth l"
  "viewHeight (ensure_client_area l) = viewHeight l"
  "is_maximized (ensure_client_area l) = is_maximized l"
  "is_resized_width (ensure_client_area l) = is_resized_width l"
  "is_resized_height (ensure_client_area l) = is_resized_height l"
  "clientWidth (ensure_client_area l) = clientWidth l"
  "clientHeight (ensure_client_area l) = clientHeight l"
  "scrollbarWidth (ensure_client_area l) = scrollbarWidth l"
  "scrollbarHeight (ensure_client_area l) = scrollbarHeight l"
  "targetViewWidth (ensure_client_area l) = targetViewWidth l"
  "targetViewHeight (ensure_client_area l) = targetViewHeight l"
  "targetWindowWidth (ensure_client_area l) = targetWindowWidth l"
  "targetWindowHeight (ensure_client_area l) = targetWindowHeight l"
  by (simp_all add: ensure_client_area_def)

lemma target_sizes_eq:
  "target_sizes e ws vs w
     = (ensure_client_area (fst (read_sizes e ws vs w)), snd (read_sizes e ws vs w))"
  by (simp add: target_sizes_def split_def Let_def)

lemma read_sizes_invariant:
  assumes "windows w (GetTopLevelWindowHandle e) = Some win0"
  shows "window_invariant (GetTopLevelWindowHandle e) win0 w (read_sizes e ws vs w)"
proof -
  have "window_invariant (GetTopLevelWindowHandle e) win0 w
      (initial_locals w (GetTopLevelWindowHandle e) ws vs, w)"
    using assms by (simp add: window_invariant_def initial_locals_def IsZoomed_def)
  then show ?thesis
    unfolding read_sizes_def Let_def
    by (intro final_client_size_invariant increase_height_invariant increase_width_invariant)
qed

lemma target_sizes_invariant:
  assumes "windows w (GetTopLevelWindowHandle e) = Some win0"
  shows "window_invariant (GetTopLevelWindowHandle e) win0 w (target_sizes e ws vs w)"
  using read_sizes_invariant [OF assms, of ws vs]
  by (simp add: target_sizes_eq window_invariant_def)

lemma CaptureView_world:
  "\<exists>r cs. CaptureView e v width height cw ch w = (Inr r, called cs w)
      \<and> (r = None) = (\<not> Create e width height)
      \<and> (\<forall>c \<in> set cs. c = Call_PrintWindow v \<or> c = Call_UpdateWindow v)
      \<and> length (filter is_PrintWindow cs) \<le> 3"
proof (cases "Create e width height")
  case False
  then have "CaptureView e v width height cw ch w = (Inr None, called [] w)"
    by (simp add: CaptureView_no_image called_def)
  with False show ?thesis by fastforce
next
  case True
  show ?thesis
    unfolding CaptureView_image [OF True] using True
    by (auto simp: is_PrintWindow_def)
qed

lemma restore_browser_restores:
  assumes inv: "window_invariant h win0 w0 (l, w1)"
    and same: "windows w2 = windows w1" "SetWindowPos_outcome w2 = SetWindowPos_outcome w1"
    and size: "GetWindowSize w0 h = Some (windowWidth l, windowHeight l)"
    and win0: "windows w0 h = Some win0"
    and wf: "zoomed win0 \<longrightarrow> rc win0 = maximized_rc win0"
    and ok: "\<not> zoomed win0 \<longrightarrow>
      (\<forall>log. SetWindowPos_outcome w0 log h (windowWidth l) (windowHeight l) = Applied)"
  shows "GetWindowSize (restore_browser h l w2) h = GetWindowSize w0 h
    \<and> IsZoomed (restore_browser h l w2) h = IsZoomed w0 h"
proof -
  from inv same obtain win where
    sys: "SetWindowPos_outcome w2 = SetWindowPos_outcome w0"
    and mx: "is_maximized l = zoomed win0"
    and win: "windows w2 h = Some win" "maximized_rc win = maximized_rc win0"
    and z: "if is_resized_width l \<or> is_resized_height l then \<not> zoomed win else win = win0"
    by (auto simp: window_invariant_def)
  show ?thesis
  proof (cases "is_resized_width l \<or> is_resized_height l")
    case False
    with z win win0 show ?thesis
      by (simp add: restore_browser_def GetWindowSize_def GetWindowRect_def IsZoomed_def)
  next
    case True
    with z have nz: "\<not> zoomed win" by simp
    show ?thesis
    proof (cases "zoomed win0")
      case True
      with wf have "rc win0 = maximized_rc win0" by simp
      with \<open>is_resized_width l \<or> is_resized_height l\<close> True mx nz win win0 show ?thesis
        by (simp add: restore_browser_def ShowWindow_window show_window_def
            GetWindowSize_def GetWindowRect_def IsZoomed_def)
    next
      case False
      with ok sys have "SetWindowPos_outcome w2 (calls w2) h (windowWidth l) (windowHeight l) = Applied"
        by simp
      from SetWindowSize_applied [OF win(1) this]
      have "windows (snd (SetWindowSize h (windowWidth l) (windowHeight l) w2)) h
          = Some (win\<lparr>rc := resized (rc win) (windowWidth l) (windowHeight l)\<rparr>)" .
      with \<open>is_resized_width l \<or> is_resized_height l\<close> False mx nz win0 size show ?thesis
        by (simp add: restore_browser_def GetWindowSize_def GetWindowRect_def IsZoomed_def
            resized_def)
    qed
  qed
qed

subsection \<open>The capture as a whole\<close>

lemma CaptureBrowser_reaches:
  assumes "reaches_capture e w ws vs" and "target_sizes e ws vs w = (l, w1)"
  shows "CaptureBrowser e this_image w =
     finish_capture (GetTopLevelWindowHandle e) l this_image
       (CaptureView e (GetContentWindowHandle e) (targetClientWidth l) (targetClientHeight l)
          (clientWidth l - 17) (clientHeight l - 17) w1)"
  using assms by (simp add: CaptureBrowser_def reaches_capture_def)

lemma target_sizes_client:
  "clientWidth (fst (target_sizes e ws vs w)) = get_clientWidth e"
  "clientHeight (fst (target_sizes e ws vs w)) = get_clientHeight e"
  by (simp_all add: target_sizes_eq read_sizes_fields)

lemma sint_minus_17:
  "- 2147483631 \<le> sint (x::int32) \<Longrightarrow> sint (x - 17) = sint x - 17"
  using sint_lt [of x] by (simp add: sint_word_ariths signed_take_bit_int_eq_self)

lemma IsImageSameColour_empty:
  assumes "GetBPP img = 32" and "cw \<le>s 0 \<or> ch \<le>s 0"
  shows "IsImageSameColour img cw ch = Inr True"
proof -
  have "c_min cw (GetWidth img) \<le>s 0 \<or> c_min ch (GetHeight img) \<le>s 0"
    using assms(2) by (auto simp: c_min_def signed_compare)
  then show ?thesis
    using assms(1) by (auto simp: IsImageSameColour_iff signed_compare)
qed

lemma finish_capture_image:
  "finish_capture h l this_image (Inr (Some img), w)
     = (Inr S_OK, Some img, restore_browser h l w)"
  by (simp add: finish_capture_def)

lemma finish_capture_ensure:
  "finish_capture h (ensure_client_area l) this_image captured = finish_capture h l this_image captured"
  by (simp add: finish_capture_def restore_browser_def split: prod.splits sum.splits)

lemma target_sizes_fields:
  fixes e ws vs w
  defines "l \<equiv> fst (target_sizes e ws vs w)"
  shows "windowWidth l = fst ws" "windowHeight l = snd ws"
    "viewWidth l = fst vs" "viewHeight l = snd vs"
    "is_maximized l = IsZoomed w (GetTopLevelWindowHandle e)"
    "scrollbarWidth l = scrollbar_width e vs"
    "scrollbarHeight l = scrollbar_height e vs"
    "is_resized_width l = (fst vs <s natural_width e vs)"
    "is_resized_height l = (snd vs <s natural_height e vs)"
    "targetViewWidth l = (if fst vs <s natural_width e vs then clamped (natural_width e vs)
       else natural_width e vs)"
    "targetViewHeight l = (if snd vs <s natural_height e vs
       then (if 0 <s scrollbar_width e vs then clamped (natural_height e vs) - 2
             else clamped (natural_height e vs))
       else natural_height e vs)"
    "targetWindowWidth l = (if fst vs <s natural_width e vs
       then fst ws + (clamped (natural_width e vs) - fst vs) else fst ws)"
    "targetWindowHeight l = (if snd vs <s natural_height e vs
       then snd ws + ((if 0 <s scrollbar_width e vs then clamped (natural_height e vs) - 2
             else clamped (natural_height e vs)) - snd vs) else snd ws)"
  unfolding l_def by (simp_all add: target_sizes_eq read_sizes_fields)

lemma not_grown:
  "(v <s c_max v x) = (\<not> x \<le>s v)"
  by (auto simp: c_max_def signed_compare)

lemma no_growth_natural:
  assumes "\<not> v <s c_max v x"
  shows "c_max v x = v"
proof (cases "x <s v")
  case True
  then show ?thesis
    by (simp add: c_max_def)
next
  case False
  with assms have "sint x = sint v"
    by (simp add: c_max_def signed_compare)
  then have "x = v"
    by (rule signed_word_eqI)
  then show ?thesis
    by (simp add: c_max_def)
qed

lemma increase_width_unchanged:
  assumes "\<not> viewWidth (fst lw) <s c_max (viewWidth (fst lw))
      (get_scrollWidth e + c_max 0 (viewWidth (fst lw) - get_clientWidth e))"
  shows "snd (increase_width e h lw) = snd lw"
  using assms by (cases lw) (simp add: increase_width_def Let_def)

lemma increase_height_unchanged:
  assumes "\<not> viewHeight (fst lw) <s c_max (viewHeight (fst lw))
      (get_scrollHeight e + c_max 0 (viewHeight (fst lw) - get_clientHeight e))"
  shows "snd (increase_height e h lw) = snd lw"
  using assms by (cases lw) (simp add: increase_height_def Let_def)

lemma final_client_size_unchanged:
  assumes "\<not> is_resized_width (fst lw)" "\<not> is_resized_height (fst lw)"
  shows "snd (final_client_size e lw) = snd lw"
  using assms by (cases lw) (simp add: final_client_size_def Let_def)

lemma read_sizes_unchanged:
  assumes "\<not> fst vs <s natural_width e vs" "\<not> snd vs <s natural_height e vs"
  shows "snd (read_sizes e ws vs w) = w"
proof -
  define h where "h = GetTopLevelWindowHandle e"
  define lw0 where "lw0 = (initial_locals w h ws vs, w)"
  define lw1 where "lw1 = increase_width e h lw0"
  define lw2 where "lw2 = increase_height e h lw1"
  have r: "read_sizes e ws vs w = final_client_size e lw2"
    by (simp add: read_sizes_def Let_def lw2_def lw1_def lw0_def h_def)
  have v0: "viewWidth (fst lw0) = fst vs" "viewHeight (fst lw0) = snd vs"
    "\<not> is_resized_width (fst lw0)" "\<not> is_resized_height (fst lw0)"
    by (simp_all add: lw0_def initial_locals_def)
  have w1: "snd lw1 = w"
    unfolding lw1_def using assms(1) v0
    by (subst increase_width_unchanged) (simp_all add: natural_width_def lw0_def)
  have v1: "viewHeight (fst lw1) = snd vs" "\<not> is_resized_width (fst lw1)"
    "\<not> is_resized_height (fst lw1)"
    unfolding lw1_def using assms(1) v0
    by (simp_all add: increase_width_fields natural_width_def)
  have w2: "snd lw2 = w"
    unfolding lw2_def using assms(2) v1 w1
    by (subst increase_height_unchanged) (simp_all add: natural_height_def)
  have v2: "\<not> is_resized_width (fst lw2)" "\<not> is_resized_height (fst lw2)"
    unfolding lw2_def using assms(2) v1
    by (simp_all add: increase_height_fields natural_height_def)
  show ?thesis
    by (simp add: r final_client_size_unchanged v2 w2)
qed

lemma restore_browser_unchanged:
  "\<not> is_resized_width l \<Longrightarrow> \<not> is_resized_height l \<Longrightarrow> restore_browser h l w = w"
  by (simp add: restore_browser_def)

lemma CaptureBrowser_early:
  assumes "\<not> (\<exists>ws vs. reaches_capture e w ws vs)"
  shows "snd (CaptureBrowser e this_image w) = (this_image, w)"
  using assms
  by (auto simp: CaptureBrowser_def reaches_capture_def Let_def split: option.splits sum.splits)

lemma CaptureBrowser_early_result:
  assumes "\<not> (\<exists>ws vs. reaches_capture e w ws vs)"
  shows "fst (CaptureBrowser e this_image w) = Inr E_FAIL
    \<or> fst (CaptureBrowser e this_image w) = Inl access_violation"
  using assms
  by (auto simp: CaptureBrowser_def GetDocument_def GetCanvas_def reaches_capture_def Let_def
      split: option.splits sum.splits if_splits)

lemma CaptureBrowser_result:
  assumes reach: "reaches_capture e w ws vs"
  shows "\<exists>r cs. CaptureBrowser e this_image w =
      (Inr (if r = None then E_FAIL else S_OK), r,
       restore_browser (GetTopLevelWindowHandle e) (fst (target_sizes e ws vs w))
         (called cs (snd (target_sizes e ws vs w))))
    \<and> (\<forall>c \<in> set cs. c = Call_PrintWindow (GetContentWindowHandle e)
           \<or> c = Call_UpdateWindow (GetContentWindowHandle e))"
proof -
  define l where "l = fst (target_sizes e ws vs w)"
  define w1 where "w1 = snd (target_sizes e ws vs w)"
  have t: "target_sizes e ws vs w = (l, w1)"
    by (simp add: l_def w1_def)
  obtain r cs where c: "CaptureView e (GetContentWindowHandle e) (targetClientWidth l)
      (targetClientHeight l) (clientWidth l - 17) (clientHeight l - 17) w1 = (Inr r, called cs w1)"
    and cs: "\<forall>c \<in> set cs. c = Call_PrintWindow (GetContentWindowHandle e)
           \<or> c = Call_UpdateWindow (GetContentWindowHandle e)"
    using CaptureView_world [of e "GetContentWindowHandle e" "targetClientWidth l"
        "targetClientHeight l" "clientWidth l - 17" "clientHeight l - 17" w1]
    by blast
  have "CaptureBrowser e this_image w =
      (Inr (if r = None then E_FAIL else S_OK), r,
       restore_browser (GetTopLevelWindowHandle e) l (called cs w1))"
    by (simp add: CaptureBrowser_reaches [OF reach t] c finish_capture_def)
  with cs show ?thesis
    unfolding l_def w1_def by blast
qed

lemma CaptureBrowser_restores:
  assumes wf: "\<forall>win. windows w (GetTopLevelWindowHandle e) = Some win \<and> zoomed win
      \<longrightarrow> rc win = maximized_rc win"
    and ok: "\<forall>cx cy. GetWindowSize w (GetTopLevelWindowHandle e) = Some (cx, cy)
        \<and> \<not> IsZoomed w (GetTopLevelWindowHandle e)
      \<longrightarrow> (\<forall>log. SetWindowPos_outcome w log (GetTopLevelWindowHandle e) cx cy = Applied)"
  shows "GetWindowSize (snd (snd (CaptureBrowser e this_image w))) (GetTopLevelWindowHandle e)
      = GetWindowSize w (GetTopLevelWindowHandle e)
    \<and> IsZoomed (snd (snd (CaptureBrowser e this_image w))) (GetTopLevelWindowHandle e)
      = IsZoomed w (GetTopLevelWindowHandle e)"
proof (cases "\<exists>ws vs. reaches_capture e w ws vs")
  case False
  then show ?thesis
    by (simp add: CaptureBrowser_early)
next
  case True
  then obtain ws vs where reach: "reaches_capture e w ws vs"
    by blast
  define h where "h = GetTopLevelWindowHandle e"
  define l where "l = fst (target_sizes e ws vs w)"
  define w1 where "w1 = snd (target_sizes e ws vs w)"
  from reach have size: "GetWindowSize w h = Some ws"
    by (simp add: reaches_capture_def h_def)
  then obtain win0 where win0: "windows w h = Some win0"
    by (auto simp: GetWindowSize_def GetWindowRect_def split: option.splits)
  have inv: "window_invariant h win0 w (l, w1)"
    using target_sizes_invariant [of w e win0 ws vs] win0
    by (simp add: h_def l_def w1_def)
  have fields: "windowWidth l = fst ws" "windowHeight l = snd ws"
    by (simp_all add: l_def target_sizes_fields)
  obtain r cs where c: "CaptureBrowser e this_image w =
      (Inr (if r = None then E_FAIL else S_OK), r, restore_browser h l (called cs w1))"
    using CaptureBrowser_result [OF reach, of this_image]
    unfolding h_def l_def w1_def by blast
  have z: "IsZoomed w h = zoomed win0"
    using win0 by (simp add: IsZoomed_def)
  have "GetWindowSize (restore_browser h l (called cs w1)) h = GetWindowSize w h
    \<and> IsZoomed (restore_browser h l (called cs w1)) h = IsZoomed w h"
  proof (rule restore_browser_restores [OF inv])
    show "windows (called cs w1) = windows w1"
      "SetWindowPos_outcome (called cs w1) = SetWindowPos_outcome w1"
      by simp_all
    show "GetWindowSize w h = Some (windowWidth l, windowHeight l)"
      by (simp add: size fields)
    show "windows w h = Some win0"
      by (fact win0)
    show "zoomed win0 \<longrightarrow> rc win0 = maximized_rc win0"
      using wf win0 by (simp add: h_def)
    show "\<not> zoomed win0 \<longrightarrow>
        (\<forall>log. SetWindowPos_outcome w log h (windowWidth l) (windowHeight l) = Applied)"
      using ok size z by (simp add: h_def fields)
  qed
  then show ?thesis
    by (simp add: c h_def)
qed

lemma CaptureBrowser_outcome:
  "(\<exists>hr. fst (CaptureBrowser e this_image w) = Inr hr)
   \<or> CaptureBrowser e this_image w = (Inl access_violation, this_image, w)"
proof (cases "\<exists>ws vs. reaches_capture e w ws vs")
  case False
  from CaptureBrowser_early [OF this, of this_image]
    CaptureBrowser_early_result [OF this, of this_image]
  show ?thesis
    by (cases "CaptureBrowser e this_image w") auto
next
  case True
  then obtain ws vs where "reaches_capture e w ws vs"
    by blast
  from CaptureBrowser_result [OF this, of this_image] show ?thesis
    by auto
qed

lemma capture_loop_first:
  "capture_loop x 1 this_image w =
     (case first_try x this_image w of
        (Inl ex, img, w1) \<Rightarrow> (Inl ex, img, w1)
      | (Inr hr, img, w1) \<Rightarrow>
          if SUCCEEDED hr then (Inr None, img, w1)
          else
            (case CaptureBrowser (browser_at x 2) None w1 of
               (Inl ex, img, w2) \<Rightarrow> (Inl ex, img, w2)
             | (Inr hr, img, w2) \<Rightarrow>
                 if SUCCEEDED hr then (Inr None, img, w2)
                 else (Inr (Some (SuccessResponse [])), None, w2)))"
  by (simp add: capture_loop.simps [of _ 1] capture_loop.simps [of _ 2] first_try_def
      tries_def ClearImage_def signed_compare Let_def split: prod.splits sum.splits)

lemma capture_loop_tries:
  "capture_loop x 1 this_image w =
     (case fst (first_try x this_image w) of
        Inl ex \<Rightarrow> (Inl ex, snd (first_try x this_image w))
      | Inr hr \<Rightarrow>
          if capture_succeeded x this_image w then (Inr None, snd (last_try x this_image w))
          else
            (case fst (second_try x this_image w) of
               Inl ex \<Rightarrow> (Inl ex, snd (second_try x this_image w))
             | Inr hr \<Rightarrow>
                 (Inr (Some (SuccessResponse [])), None, snd (snd (second_try x this_image w)))))"
proof -
  obtain r1 img1 w1 where f: "first_try x this_image w = (r1, img1, w1)"
    by (cases "first_try x this_image w")
  obtain r2 img2 w2 where s: "second_try x this_image w = (r2, img2, w2)"
    by (cases "second_try x this_image w")
  from s f have s': "CaptureBrowser (browser_at x 2) None w1 = (r2, img2, w2)"
    by (simp add: second_try_def)
  show ?thesis
    by (cases r1; cases r2)
      (simp_all add: capture_loop_first f s s' try_succeeded_def try_failed_def
        capture_succeeded_def last_try_def)
qed

lemma FAILED_simps [simp]:
  "FAILED E_FAIL" "FAILED E_POINTER" "\<not> FAILED S_OK"
  by (simp_all add: FAILED_def E_FAIL_def E_POINTER_def S_OK_def signed_compare)

lemma ConvImageToPngBase64string_text:
  assumes len: "\<forall>n. n \<le>s 0 \<longrightarrow> Base64EncodeGetRequiredLength x n \<le>s 0"
    and enc: "\<forall>src cap encoded. src \<noteq> [] \<and> Base64Encode x src cap = Some encoded
        \<longrightarrow> takeWhile (\<lambda>c. c \<noteq> CHR 0x00) encoded \<noteq> []"
    and ok: "\<not> FAILED (fst (ConvImageToPngBase64string x image_ptr []))"
  shows "snd (ConvImageToPngBase64string x image_ptr []) \<noteq> []"
proof -
  from ok obtain img where img: "image_ptr = Some img"
    by (cases image_ptr) (auto simp: ConvImageToPngBase64string_def)
  obtain hr stream where save: "Save x img = (hr, stream)"
    by (cases "Save x img")
  define stream_size :: int32 where "stream_size = word_of_nat (length stream)"
  define src where "src = take (nat (sint stream_size)) stream"
  from ok img save have steps: "\<not> FAILED (CreateStreamOnHGlobal x)" "\<not> FAILED hr"
    "\<not> FAILED (Stat x)" "\<not> FAILED (GetHGlobalFromStream x)"
    "\<not> Base64EncodeGetRequiredLength x stream_size \<le>s 0" "GlobalLock x"
    by (auto simp: ConvImageToPngBase64string_def Let_def stream_size_def split: if_splits)
  with ok img save obtain encoded where encoded:
    "Base64Encode x src (Base64EncodeGetRequiredLength x stream_size) = Some encoded"
    by (cases "Base64Encode x src (Base64EncodeGetRequiredLength x stream_size)")
      (auto simp: ConvImageToPngBase64string_def Let_def stream_size_def src_def)
  have pos: "0 < sint stream_size"
  proof (rule ccontr)
    assume "\<not> 0 < sint stream_size"
    then have "stream_size \<le>s 0"
      by (simp add: signed_compare)
    with len have "Base64EncodeGetRequiredLength x stream_size \<le>s 0"
      by blast
    with steps show False
      by simp
  qed
  then have "stream \<noteq> []"
    by (auto simp: stream_size_def)
  with pos have "src \<noteq> []"
    by (simp add: src_def)
  with enc encoded have "takeWhile (\<lambda>c. c \<noteq> CHR 0x00) encoded \<noteq> []"
    by blast
  moreover have "snd (ConvImageToPngBase64string x image_ptr []) = takeWhile (\<lambda>c. c \<noteq> CHR 0x00) encoded"
    using img save steps encoded
    by (simp add: ConvImageToPngBase64string_def Let_def flip: stream_size_def src_def)
  ultimately show ?thesis
    by simp
qed

lemma increase_width_calls:
  "\<exists>cs. calls (snd (increase_width e h lw)) = calls (snd lw) @ cs"
  by (cases lw) (simp add: increase_width_def Let_def)

lemma increase_height_calls:
  "\<exists>cs. calls (snd (increase_height e h lw)) = calls (snd lw) @ cs"
  by (cases lw) (simp add: increase_height_def Let_def)

lemma final_client_size_calls:
  "\<exists>cs. calls (snd (final_client_size e lw)) = calls (snd lw) @ cs"
  using final_client_size_shape [of e "fst lw" "snd lw"] by auto

lemma read_sizes_calls:
  "\<exists>cs. calls (snd (read_sizes e ws vs w)) = calls w @ cs"
proof -
  define h where "h = GetTopLevelWindowHandle e"
  define lw0 where "lw0 = (initial_locals w h ws vs, w)"
  define lw1 where "lw1 = increase_width e h lw0"
  define lw2 where "lw2 = increase_height e h lw1"
  have r: "read_sizes e ws vs w = final_client_size e lw2"
    by (simp add: read_sizes_def Let_def lw2_def lw1_def lw0_def h_def)
  obtain cs1 where "calls (snd lw1) = calls w @ cs1"
    using increase_width_calls [of e h lw0] by (auto simp: lw1_def lw0_def)
  moreover obtain cs2 where "calls (snd lw2) = calls (snd lw1) @ cs2"
    using increase_height_calls [of e h lw1] by (auto simp: lw2_def)
  moreover obtain cs3 where "calls (snd (final_client_size e lw2)) = calls (snd lw2) @ cs3"
    using final_client_size_calls [of e lw2] by auto
  ultimately show ?thesis
    by (simp add: r)
qed

lemma restore_browser_calls:
  "is_resized_width l \<or> is_resized_height l \<Longrightarrow>
   calls (restore_browser h l w)
     = calls w @ [restoring_call h (is_maximized l) (windowWidth l, windowHeight l)]"
  by (auto simp: restore_browser_def restoring_call_def)

lemma CaptureBrowser_calls:
  "\<exists>cs. calls (snd (snd (CaptureBrowser e this_image w))) = calls w @ cs
     \<and> ((\<forall>c \<in> set cs. \<not> is_window_call c)
          \<or> (\<exists>cs' ws. GetWindowSize w (GetTopLevelWindowHandle e) = Some ws
                \<and> cs = cs' @ [restoring_call (GetTopLevelWindowHandle e)
                                 (IsZoomed w (GetTopLevelWindowHandle e)) ws]))"
proof (cases "\<exists>ws vs. reaches_capture e w ws vs")
  case False
  then have "calls (snd (snd (CaptureBrowser e this_image w))) = calls w @ []"
    by (simp add: CaptureBrowser_early)
  then show ?thesis
    by fastforce
next
  case True
  then obtain ws vs where reach: "reaches_capture e w ws vs"
    by blast
  define h where "h = GetTopLevelWindowHandle e"
  define l where "l = fst (target_sizes e ws vs w)"
  define w1 where "w1 = snd (target_sizes e ws vs w)"
  from reach have size: "GetWindowSize w h = Some ws"
    by (simp add: reaches_capture_def h_def)
  obtain r cs2 where c: "CaptureBrowser e this_image w =
      (Inr (if r = None then E_FAIL else S_OK), r, restore_browser h l (called cs2 w1))"
    and cs2: "\<forall>c \<in> set cs2. c = Call_PrintWindow (GetContentWindowHandle e)
           \<or> c = Call_UpdateWindow (GetContentWindowHandle e)"
    using CaptureBrowser_result [OF reach, of this_image]
    unfolding h_def l_def w1_def by blast
  have paint: "\<forall>c \<in> set cs2. \<not> is_window_call c"
    using cs2 by (auto simp: is_window_call_def)
  show ?thesis
  proof (cases "is_resized_width l \<or> is_resized_height l")
    case False
    then have "\<not> fst vs <s natural_width e vs" "\<not> snd vs <s natural_height e vs"
      by (simp_all add: l_def target_sizes_fields)
    then have "w1 = w"
      by (simp add: w1_def target_sizes_eq read_sizes_unchanged)
    with False have "calls (snd (snd (CaptureBrowser e this_image w))) = calls w @ cs2"
      by (simp add: c restore_browser_unchanged)
    with paint show ?thesis
      by blast
  next
    case True
    obtain cs1 where cs1: "calls w1 = calls w @ cs1"
      using read_sizes_calls [of e ws vs w] by (auto simp: w1_def target_sizes_eq)
    have "calls (snd (snd (CaptureBrowser e this_image w)))
        = calls w @ ((cs1 @ cs2) @ [restoring_call h (IsZoomed w h) ws])"
      using True by (simp add: c restore_browser_calls cs1) (simp add: l_def target_sizes_fields h_def)
    with size show ?thesis
      unfolding h_def by blast
  qed
qed

subsection \<open>The resize requests\<close>

lemma increase_width_world:
  fixes e h l w
  defines "n \<equiv> c_max (viewWidth l) (get_scrollWidth e + c_max 0 (viewWidth l - get_clientWidth e))"
  shows "snd (increase_width e h (l, w)) =
    (if viewWidth l <s n
     then snd (SetWindowSize h (targetWindowWidth l + (clamped n - viewWidth l)) (targetWindowHeight l)
            (if is_maximized l then ShowWindow h SW_SHOWNOACTIVATE w else w))
     else w)"
  unfolding n_def by (simp add: increase_width_def Let_def clamped_def)

lemma increase_height_world:
  fixes e h l w
  defines "n \<equiv> c_max (viewHeight l) (get_scrollHeight e + c_max 0 (viewHeight l - get_clientHeight e))"
  shows "snd (increase_height e h (l, w)) =
    (if viewHeight l <s n
     then snd (SetWindowSize h (targetWindowWidth l)
            (targetWindowHeight l
               + ((if 0 <s scrollbarWidth l then clamped n - 2 else clamped n) - viewHeight l))
            (if is_maximized l \<and> \<not> is_resized_width l
             then ShowWindow h SW_SHOWNOACTIVATE w else w))
     else w)"
  unfolding n_def by (simp add: increase_height_def Let_def clamped_def)

lemma no_window_calls:
  "\<forall>c \<in> set cs. is_recalc c \<Longrightarrow> filter is_window_call cs = []"
  "\<forall>c \<in> set cs. c = Call_PrintWindow v \<or> c = Call_UpdateWindow v \<Longrightarrow> filter is_window_call cs = []"
  by (auto simp: filter_empty_conv is_recalc_def is_window_call_def split: call.splits)

lemma target_sizes_world:
  fixes e ws vs w
  defines "h \<equiv> GetTopLevelWindowHandle e"
  defines "l \<equiv> fst (target_sizes e ws vs w)"
  defines "w1 \<equiv> (if fst vs <s natural_width e vs
      then snd (SetWindowSize h (targetWindowWidth l) (snd ws)
             (if IsZoomed w h then ShowWindow h SW_SHOWNOACTIVATE w else w))
      else w)"
  defines "w2 \<equiv> (if snd vs <s natural_height e vs
      then snd (SetWindowSize h (targetWindowWidth l) (targetWindowHeight l)
             (if IsZoomed w h \<and> \<not> fst vs <s natural_width e vs
              then ShowWindow h SW_SHOWNOACTIVATE w1 else w1))
      else w1)"
  shows "\<exists>cs. snd (target_sizes e ws vs w) = called cs w2 \<and> (\<forall>c \<in> set cs. is_recalc c)"
proof -
  define lw0 where "lw0 = (initial_locals w h ws vs, w)"
  define lw1 where "lw1 = increase_width e h lw0"
  define lw2 where "lw2 = increase_height e h lw1"
  have r: "read_sizes e ws vs w = final_client_size e lw2"
    by (simp add: read_sizes_def Let_def lw2_def lw1_def lw0_def h_def)
  note t = target_sizes_fields [of e ws vs w, folded l_def h_def]
  have f0: "viewWidth (fst lw0) = fst vs" "is_maximized (fst lw0) = IsZoomed w h"
    "targetWindowWidth (fst lw0) = fst ws" "targetWindowHeight (fst lw0) = snd ws"
    "viewHeight (fst lw0) = snd vs" "scrollbarWidth (fst lw0) = 0"
    by (simp_all add: lw0_def initial_locals_def)
  have s1: "snd lw1 = w1"
    unfolding lw1_def lw0_def increase_width_world w1_def
    by (simp add: initial_locals_def t flip: natural_width_def)
  have f1: "viewHeight (fst lw1) = snd vs" "is_maximized (fst lw1) = IsZoomed w h"
    "is_resized_width (fst lw1) = (fst vs <s natural_width e vs)"
    "scrollbarWidth (fst lw1) = scrollbar_width e vs"
    "targetWindowWidth (fst lw1) = targetWindowWidth l"
    "targetWindowHeight (fst lw1) = snd ws"
    unfolding lw1_def
    by (simp_all add: increase_width_fields lw0_def initial_locals_def t natural_width_def
        scrollbar_width_def)
  have "snd lw2 = snd (increase_height e h (fst lw1, snd lw1))"
    by (simp add: lw2_def)
  also have "\<dots> = w2"
    unfolding increase_height_world w2_def
    by (simp add: f1 s1 t flip: natural_height_def)
  finally have s2: "snd lw2 = w2" .
  obtain a b cs where "final_client_size e (fst lw2, snd lw2)
      = ((fst lw2)\<lparr>targetClientWidth := a, targetClientHeight := b\<rparr>, called cs (snd lw2))"
    and "\<forall>c \<in> set cs. is_recalc c"
    using final_client_size_shape [of e "fst lw2" "snd lw2"] by blast
  moreover have "lw2 = (fst lw2, snd lw2)"
    by simp
  ultimately have "snd (target_sizes e ws vs w) = called cs w2 \<and> (\<forall>c \<in> set cs. is_recalc c)"
    by (simp add: target_sizes_eq r s2 del: prod.collapse)
  then show ?thesis ..
qed

lemma target_sizes_window_calls:
  fixes e ws vs w
  defines "h \<equiv> GetTopLevelWindowHandle e"
  defines "l \<equiv> fst (target_sizes e ws vs w)"
  shows "filter is_window_call (calls (snd (target_sizes e ws vs w))) =
     filter is_window_call (calls w)
     @ (if fst vs <s natural_width e vs
        then (if IsZoomed w h then [Call_ShowWindow h SW_SHOWNOACTIVATE] else [])
             @ [Call_SetWindowPos h (targetWindowWidth l) (snd ws)]
        else [])
     @ (if snd vs <s natural_height e vs
        then (if IsZoomed w h \<and> \<not> fst vs <s natural_width e vs
              then [Call_ShowWindow h SW_SHOWNOACTIVATE] else [])
             @ [Call_SetWindowPos h (targetWindowWidth l) (targetWindowHeight l)]
        else [])"
proof -
  obtain cs where "snd (target_sizes e ws vs w) = called cs
      (if snd vs <s natural_height e vs
       then snd (SetWindowSize h (targetWindowWidth l) (targetWindowHeight l)
              (if IsZoomed w h \<and> \<not> fst vs <s natural_width e vs
               then ShowWindow h SW_SHOWNOACTIVATE
                 (if fst vs <s natural_width e vs
                  then snd (SetWindowSize h (targetWindowWidth l) (snd ws)
                         (if IsZoomed w h then ShowWindow h SW_SHOWNOACTIVATE w else w))
                  else w)
               else (if fst vs <s natural_width e vs
                  then snd (SetWindowSize h (targetWindowWidth l) (snd ws)
                         (if IsZoomed w h then ShowWindow h SW_SHOWNOACTIVATE w else w))
                  else w)))
       else (if fst vs <s natural_width e vs
                  then snd (SetWindowSize h (targetWindowWidth l) (snd ws)
                         (if IsZoomed w h then ShowWindow h SW_SHOWNOACTIVATE w else w))
                  else w))"
    and "\<forall>c \<in> set cs. is_recalc c"
    using target_sizes_world [of e ws vs w] unfolding h_def l_def by blast
  then show ?thesis
    by (simp add: no_window_calls is_window_call_def)
qed

lemma GetWindowSize_called [simp]:
  "GetWindowSize (called cs w) h = GetWindowSize w h"
  by (simp add: GetWindowSize_def GetWindowRect_def)

lemma target_sizes_height_grown:
  fixes e ws vs w
  defines "h \<equiv> GetTopLevelWindowHandle e"
  defines "l \<equiv> fst (target_sizes e ws vs w)"
  assumes size: "GetWindowSize w h = Some ws"
    and width: "\<not> fst vs <s natural_width e vs"
    and height: "snd vs <s natural_height e vs"
    and ok: "\<forall>log. SetWindowPos_outcome w log h (fst ws) (targetWindowHeight l) = Applied"
  shows "GetWindowSize (snd (target_sizes e ws vs w)) h = Some (fst ws, targetWindowHeight l)"
proof -
  define w0 where "w0 = (if IsZoomed w h then ShowWindow h SW_SHOWNOACTIVATE w else w)"
  from size obtain win where win: "windows w h = Some win"
    by (auto simp: GetWindowSize_def GetWindowRect_def split: option.splits)
  then have "windows w0 h = Some (if IsZoomed w h then show_window SW_SHOWNOACTIVATE win else win)"
    by (simp add: w0_def ShowWindow_window)
  then obtain win' where win': "windows w0 h = Some win'" ..
  have sys: "SetWindowPos_outcome w0 = SetWindowPos_outcome w"
    by (simp add: w0_def)
  have tw: "targetWindowWidth l = fst ws"
    using width by (simp add: l_def target_sizes_fields)
  have "\<exists>cs. snd (target_sizes e ws vs w)
      = called cs (snd (SetWindowSize h (fst ws) (targetWindowHeight l) w0))"
    using target_sizes_world [of e ws vs w] width height tw
    unfolding w0_def h_def l_def by (simp split: if_splits) blast+
  then obtain cs where "snd (target_sizes e ws vs w)
      = called cs (snd (SetWindowSize h (fst ws) (targetWindowHeight l) w0))" ..
  moreover have "windows (snd (SetWindowSize h (fst ws) (targetWindowHeight l) w0)) h
      = Some (win'\<lparr>rc := resized (rc win') (fst ws) (targetWindowHeight l)\<rparr>)"
    using win' ok by (intro SetWindowSize_applied) (simp_all add: sys)
  ultimately show ?thesis
    by (simp add: GetWindowSize_resized [where r = "rc win'"])
qed

lemma CaptureBrowser_window_calls:
  assumes reach: "reaches_capture e w ws vs"
  shows "filter is_window_call (calls (snd (snd (CaptureBrowser e this_image w))))
    = filter is_window_call (calls (snd (target_sizes e ws vs w)))
      @ (if fst vs <s natural_width e vs \<or> snd vs <s natural_height e vs
         then [restoring_call (GetTopLevelWindowHandle e)
                 (IsZoomed w (GetTopLevelWindowHandle e)) ws]
         else [])"
proof -
  define h where "h = GetTopLevelWindowHandle e"
  define l where "l = fst (target_sizes e ws vs w)"
  define w1 where "w1 = snd (target_sizes e ws vs w)"
  obtain r cs where c: "CaptureBrowser e this_image w =
      (Inr (if r = None then E_FAIL else S_OK), r, restore_browser h l (called cs w1))"
    and cs: "\<forall>c \<in> set cs. c = Call_PrintWindow (GetContentWindowHandle e)
           \<or> c = Call_UpdateWindow (GetContentWindowHandle e)"
    using CaptureBrowser_result [OF reach, of this_image]
    unfolding h_def l_def w1_def by blast
  note f = target_sizes_fields [of e ws vs w, folded l_def h_def]
  have w: "is_window_call (restoring_call h z ws)" for z
    by (simp add: restoring_call_def is_window_call_def)
  show ?thesis
  proof (cases "is_resized_width l \<or> is_resized_height l")
    case True
    then show ?thesis
      using cs unfolding c
      by (simp add: restore_browser_calls no_window_calls f w flip: h_def w1_def)
  next
    case False
    then show ?thesis
      using cs unfolding c
      by (simp add: restore_browser_unchanged no_window_calls f flip: h_def w1_def)
  qed
qed

lemma clamped_le:
  "clamped x \<le>s 65534"
  by (simp add: clamped_def SIZE_LIMIT_def signed_compare)

lemma clamped_cut:
  "65534 <s x \<Longrightarrow> clamped x = 65534"
  by (simp add: clamped_def SIZE_LIMIT_def)

lemma natural_no_growth:
  "\<not> fst vs <s natural_width e vs \<Longrightarrow> natural_width e vs = fst vs"
  "\<not> snd vs <s natural_height e vs \<Longrightarrow> natural_height e vs = snd vs"
  by (simp_all add: natural_width_def natural_height_def no_growth_natural)

lemma grown_height_le:
  assumes "snd vs <s natural_height e vs" and "- 2147483648 <s snd vs"
  shows "clamped (natural_height e vs) - 2 \<le>s 65534"
proof -
  define c where "c = clamped (natural_height e vs)"
  from assms have "- 2147483648 + 2 \<le> sint c"
    by (auto simp: c_def clamped_def SIZE_LIMIT_def signed_compare)
  moreover have "sint c \<le> 65534"
    using clamped_le [of "natural_height e vs"] by (simp add: c_def signed_compare)
  ultimately have "sint (c - 2) = sint c - 2"
    by (simp add: sint_word_ariths signed_take_bit_int_eq_self)
  with \<open>sint c \<le> 65534\<close> show ?thesis
    by (simp add: signed_compare flip: c_def)
qed

text \<open>
  From the view height -2147483648 the subtraction of the 2 pixels wraps around:
  the height before the ceiling is -2147483647 and the target 2147483647.
\<close>

lemma grown_height_wraps:
  "scrollbar_width wrapping_env (984, - 2147483648) = 17
   \<and> natural_height wrapping_env (984, - 2147483648) = - 2147483647
   \<and> (- 2147483648 :: int32) <s - 2147483647
   \<and> targetViewHeight (fst (target_sizes wrapping_env (1000, 700) (984, - 2147483648) scenario_world))
       = 2147483647
   \<and> \<not> (2147483647 :: int32) \<le>s 65534"
  by code_simp

subsection \<open>The responses\<close>

text \<open>
  When the browser cannot be found the response is the error; in every other
  case \<^verbatim>\<open>ExecuteInternal\<close> sets a success response and leaves no image behind, or
  sets no response at all because \<^verbatim>\<open>GetDocument\<close> or \<^verbatim>\<open>GetCanvas\<close> has called through
  a null pointer. It runs \<^verbatim>\<open>CaptureBrowser\<close> once, and once more when the first run
  fails. When both runs fail the payload is empty; when the encoding of the
  captured image fails the payload is empty; otherwise the payload is the text
  of the encoder. That text is not empty for an encoder that asks for no
  positive length when the source length is not positive, and that writes at
  least one character, other than the zero character, for a source of at least
  one byte.
\<close>

lemma ExecuteInternal_outcomes:
  "(GetCurrentBrowser x \<noteq> WD_SUCCESS x \<longrightarrow>
      ExecuteInternal x this_image w
        = (Inr (ErrorResponse (GetCurrentBrowser x) ''Unable to get browser''), this_image, w))
   \<and> (GetCurrentBrowser x = WD_SUCCESS x \<longrightarrow>
        (try_failed (first_try x this_image w) \<and> try_failed (second_try x this_image w)
           \<longrightarrow> ExecuteInternal x this_image w
                 = (Inr (SuccessResponse []), None, snd (snd (second_try x this_image w))))
      \<and> (capture_succeeded x this_image w
           \<and> FAILED (fst (ConvImageToPngBase64string x (fst (snd (last_try x this_image w))) []))
           \<longrightarrow> ExecuteInternal x this_image w
                 = (Inr (SuccessResponse []), None, snd (snd (last_try x this_image w))))
      \<and> (capture_succeeded x this_image w
           \<and> \<not> FAILED (fst (ConvImageToPngBase64string x (fst (snd (last_try x this_image w))) []))
           \<longrightarrow> ExecuteInternal x this_image w
                 = (Inr (SuccessResponse
                      (snd (ConvImageToPngBase64string x (fst (snd (last_try x this_image w))) []))),
                    None, snd (snd (last_try x this_image w)))
               \<and> ((\<forall>n. n \<le>s 0 \<longrightarrow> Base64EncodeGetRequiredLength x n \<le>s 0)
                    \<and> (\<forall>src cap encoded. src \<noteq> [] \<and> Base64Encode x src cap = Some encoded
                          \<longrightarrow> takeWhile (\<lambda>c. c \<noteq> CHR 0x00) encoded \<noteq> [])
                   \<longrightarrow> snd (ConvImageToPngBase64string x (fst (snd (last_try x this_image w))) [])
                         \<noteq> []))
      \<and> (\<not> capture_succeeded x this_image w
           \<and> \<not> (try_failed (first_try x this_image w) \<and> try_failed (second_try x this_image w))
           \<longrightarrow> fst (ExecuteInternal x this_image w) = Inl access_violation))"
proof -
  have first: "(\<exists>hr. fst (first_try x this_image w) = Inr hr)
      \<or> fst (first_try x this_image w) = Inl access_violation"
    using CaptureBrowser_outcome [of "browser_at x 1" this_image w]
    by (auto simp: first_try_def)
  have second: "(\<exists>hr. fst (second_try x this_image w) = Inr hr)
      \<or> fst (second_try x this_image w) = Inl access_violation"
    using CaptureBrowser_outcome [of "browser_at x 2" None "snd (snd (first_try x this_image w))"]
    by (auto simp: second_try_def)
  have err: "ExecuteInternal x this_image w
        = (Inr (ErrorResponse (GetCurrentBrowser x) ''Unable to get browser''), this_image, w)"
    if "GetCurrentBrowser x \<noteq> WD_SUCCESS x"
    using that by (simp add: ExecuteInternal_def)
  have none: "ExecuteInternal x this_image w
        = (Inr (SuccessResponse []), None, snd (snd (second_try x this_image w)))"
    if "GetCurrentBrowser x = WD_SUCCESS x"
      "try_failed (first_try x this_image w) \<and> try_failed (second_try x this_image w)"
    using that
    by (auto simp: ExecuteInternal_def capture_loop_tries capture_succeeded_def try_failed_def
        try_succeeded_def split: sum.splits)
  have some: "ExecuteInternal x this_image w
        = (Inr (SuccessResponse
              (if FAILED (fst (ConvImageToPngBase64string x (fst (snd (last_try x this_image w))) []))
               then []
               else snd (ConvImageToPngBase64string x (fst (snd (last_try x this_image w))) []))),
           None, snd (snd (last_try x this_image w)))"
    if "GetCurrentBrowser x = WD_SUCCESS x" "capture_succeeded x this_image w"
  proof -
    obtain img w' where l: "snd (last_try x this_image w) = (img, w')"
      by (cases "snd (last_try x this_image w)")
    from that(2) obtain hr where "fst (first_try x this_image w) = Inr hr"
      by (auto simp: capture_succeeded_def try_succeeded_def try_failed_def split: sum.splits)
    then show ?thesis
      using that
      by (simp add: ExecuteInternal_def capture_loop_tries l ClearImage_def split_def)
  qed
  have thrown: "fst (ExecuteInternal x this_image w) = Inl access_violation"
    if "GetCurrentBrowser x = WD_SUCCESS x" "\<not> capture_succeeded x this_image w
           \<and> \<not> (try_failed (first_try x this_image w) \<and> try_failed (second_try x this_image w))"
    using that first second
    by (auto simp: ExecuteInternal_def capture_loop_tries capture_succeeded_def try_failed_def
        try_succeeded_def split_def split: sum.splits)
  show ?thesis
    using err none some thrown
      ConvImageToPngBase64string_text [of x "fst (snd (last_try x this_image w))"]
    by (intro conjI impI) simp_all
qed

section \<open>The claims\<close>

text \<open>
  C3: \<^verbatim>\<open>CaptureView\<close> never throws and returns NULL exactly when the creation of the
  bitmap fails. It calls \<^verbatim>\<open>PrintWindow\<close> at most 3 times. When the bitmap is
  created, it returns the bitmap of the first attempt in which \<^verbatim>\<open>PrintWindow\<close>
  succeeds on a frame that is not of one colour; when neither the first nor the
  second attempt is such, it returns the bitmap as it is after the third attempt,
  whether or not that attempt was a success.
\<close>

theorem CaptureView_failure_semantics:
  "(\<exists>r cs. CaptureView e v width height cw ch w = (Inr r, called cs w)
       \<and> (r = None) = (\<not> Create e width height)
       \<and> length (filter is_PrintWindow cs) \<le> 3)
   \<and> (Create e width height \<longrightarrow>
        CaptureView e v width height cw ch w =
          (if accepted e width height cw ch 1
           then (Inr (Some (painted e width height 1)), called [Call_PrintWindow v] w)
           else if accepted e width height cw ch 2
           then (Inr (Some (painted e width height 2)),
                 called [Call_PrintWindow v, Call_UpdateWindow v, Call_PrintWindow v] w)
           else if accepted e width height cw ch 3
           then (Inr (Some (painted e width height 3)),
                 called [Call_PrintWindow v, Call_UpdateWindow v, Call_PrintWindow v,
                         Call_UpdateWindow v, Call_PrintWindow v] w)
           else (Inr (Some (painted e width height 3)),
                 called [Call_PrintWindow v, Call_UpdateWindow v, Call_PrintWindow v,
                         Call_UpdateWindow v, Call_PrintWindow v, Call_UpdateWindow v] w)))"
proof (intro conjI impI)
  show "\<exists>r cs. CaptureView e v width height cw ch w = (Inr r, called cs w)
       \<and> (r = None) = (\<not> Create e width height)
       \<and> length (filter is_PrintWindow cs) \<le> 3"
    using CaptureView_world [of e v width height cw ch w] by blast
qed (rule CaptureView_image)

theorem CaptureView_failure_semantics_witness:
  "Create blank_env 984 900
   \<and> \<not> accepted blank_env 984 900 967 629 1
   \<and> \<not> accepted blank_env 984 900 967 629 2
   \<and> \<not> accepted blank_env 984 900 967 629 3
   \<and> fst (CaptureView blank_env 2 984 900 967 629 scenario_world)
       = Inr (Some (painted blank_env 984 900 3))
   \<and> calls (snd (CaptureView blank_env 2 984 900 967 629 scenario_world))
       = [Call_PrintWindow 2, Call_UpdateWindow 2, Call_PrintWindow 2,
          Call_UpdateWindow 2, Call_PrintWindow 2, Call_UpdateWindow 2]"
proof -
  have c: "Create blank_env 984 900"
    by (simp add: blank_env_def scenario_env_def)
  have n: "\<not> accepted blank_env 984 900 967 629 i" for i
    by (simp add: accepted_def painted_def IsImageSameColour_iff blank_env_def)
  show ?thesis
    using CaptureView_failure_semantics [of blank_env 2 984 900 967 629 scenario_world] c n
    by (simp add: scenario_world_def)
qed

text \<open>
  C10: on a 32-bit image \<^verbatim>\<open>IsImageSameColour\<close> returns true whenever the check width
  or the check height is at most 0, whatever the pixels are. So when the client
  width or the client height first read is at most 17 (and at least -2147483631,
  so that subtracting 17 does not wrap around) and the bitmap can be created, no
  paint attempt is accepted: \<^verbatim>\<open>CaptureBrowser\<close> makes all three \<^verbatim>\<open>PrintWindow\<close> calls
  and succeeds with the bitmap as it is after the third.
\<close>

theorem empty_check_region_is_uniform:
  "(GetBPP img = 32 \<and> (cw \<le>s 0 \<or> ch \<le>s 0) \<longrightarrow> IsImageSameColour img cw ch = Inr True)
   \<and> (reaches_capture e w ws vs \<and> target_sizes e ws vs w = (l, w1)
        \<and> Create e (targetClientWidth l) (targetClientHeight l)
        \<and> ((- 2147483631 \<le>s get_clientWidth e \<and> get_clientWidth e \<le>s 17)
            \<or> (- 2147483631 \<le>s get_clientHeight e \<and> get_clientHeight e \<le>s 17))
      \<longrightarrow> (\<forall>i. \<not> accepted e (targetClientWidth l) (targetClientHeight l)
                   (get_clientWidth e - 17) (get_clientHeight e - 17) i)
          \<and> CaptureBrowser e this_image w =
              (Inr S_OK, Some (painted e (targetClientWidth l) (targetClientHeight l) 3),
               restore_browser (GetTopLevelWindowHandle e) l
                 (called [Call_PrintWindow (GetContentWindowHandle e),
                          Call_UpdateWindow (GetContentWindowHandle e),
                          Call_PrintWindow (GetContentWindowHandle e),
                          Call_UpdateWindow (GetContentWindowHandle e),
                          Call_PrintWindow (GetContentWindowHandle e),
                          Call_UpdateWindow (GetContentWindowHandle e)] w1)))"
proof -
  have uniform: "IsImageSameColour img cw ch = Inr True"
    if "GetBPP img = 32 \<and> (cw \<le>s 0 \<or> ch \<le>s 0)"
    using that by (simp add: IsImageSameColour_empty)
  have exhausted: "(\<forall>i. \<not> accepted e (targetClientWidth l) (targetClientHeight l)
                   (get_clientWidth e - 17) (get_clientHeight e - 17) i)
          \<and> CaptureBrowser e this_image w =
              (Inr S_OK, Some (painted e (targetClientWidth l) (targetClientHeight l) 3),
               restore_browser (GetTopLevelWindowHandle e) l
                 (called [Call_PrintWindow (GetContentWindowHandle e),
                          Call_UpdateWindow (GetContentWindowHandle e),
                          Call_PrintWindow (GetContentWindowHandle e),
                          Call_UpdateWindow (GetContentWindowHandle e),
                          Call_PrintWindow (GetContentWindowHandle e),
                          Call_UpdateWindow (GetContentWindowHandle e)] w1))"
    if h: "reaches_capture e w ws vs \<and> target_sizes e ws vs w = (l, w1)
        \<and> Create e (targetClientWidth l) (targetClientHeight l)
        \<and> ((- 2147483631 \<le>s get_clientWidth e \<and> get_clientWidth e \<le>s 17)
            \<or> (- 2147483631 \<le>s get_clientHeight e \<and> get_clientHeight e \<le>s 17))"
  proof -
    from h have reach: "reaches_capture e w ws vs" and t: "target_sizes e ws vs w = (l, w1)"
      and create: "Create e (targetClientWidth l) (targetClientHeight l)"
      and small: "(- 2147483631 \<le>s get_clientWidth e \<and> get_clientWidth e \<le>s 17)
            \<or> (- 2147483631 \<le>s get_clientHeight e \<and> get_clientHeight e \<le>s 17)"
      by simp_all
    from small have check: "get_clientWidth e - 17 \<le>s 0 \<or> get_clientHeight e - 17 \<le>s 0"
      by (auto simp: signed_compare sint_minus_17)
    have no: "\<not> accepted e (targetClientWidth l) (targetClientHeight l)
        (get_clientWidth e - 17) (get_clientHeight e - 17) i" for i
      using IsImageSameColour_empty [OF _ check, of "painted e (targetClientWidth l) (targetClientHeight l) i"]
      by (simp add: accepted_def painted_def)
    from t have client: "clientWidth l = get_clientWidth e" "clientHeight l = get_clientHeight e"
      using target_sizes_client [of e ws vs w] by simp_all
    show ?thesis
      using no
      by (simp add: CaptureBrowser_reaches [OF reach t] client CaptureView_image [OF create]
          finish_capture_image)
  qed
  show ?thesis
    by (rule conjI) (use uniform exhausted in blast)+
qed

theorem empty_check_region_is_uniform_witness:
  "reaches_capture tiny_env tiny_world (26, 49) (10, 10)
   \<and> Create tiny_env 10 10
   \<and> - 2147483631 \<le>s get_clientWidth tiny_env \<and> get_clientWidth tiny_env \<le>s 17
   \<and> fst (PrintWindow tiny_env 1)
   \<and> snd (PrintWindow tiny_env 1) 0 1 \<noteq> snd (PrintWindow tiny_env 1) 0 0
   \<and> IsImageSameColour (painted tiny_env 10 10 1) (- 7) (- 7) = Inr True
   \<and> fst (CaptureBrowser tiny_env None tiny_world) = Inr S_OK
   \<and> fst (snd (CaptureBrowser tiny_env None tiny_world)) = Some (painted tiny_env 10 10 3)
   \<and> calls (snd (snd (CaptureBrowser tiny_env None tiny_world)))
       = [Call_PrintWindow 2, Call_UpdateWindow 2, Call_PrintWindow 2,
          Call_UpdateWindow 2, Call_PrintWindow 2, Call_UpdateWindow 2]"
proof -
  define l where "l = fst (target_sizes tiny_env (26, 49) (10, 10) tiny_world)"
  define w1 where "w1 = snd (target_sizes tiny_env (26, 49) (10, 10) tiny_world)"
  have t: "target_sizes tiny_env (26, 49) (10, 10) tiny_world = (l, w1)"
    by (simp add: l_def w1_def)
  have reach: "reaches_capture tiny_env tiny_world (26, 49) (10, 10)"
    by code_simp
  have l: "targetClientWidth l = 10" "targetClientHeight l = 10"
    "is_resized_width l = False" "is_resized_height l = False"
    unfolding l_def by code_simp+
  have w1: "calls w1 = []"
    unfolding w1_def by code_simp
  have e: "Create tiny_env 10 10" "get_clientWidth tiny_env = 10" "get_clientHeight tiny_env = 10"
    "GetContentWindowHandle tiny_env = 2" "fst (PrintWindow tiny_env 1)"
    "snd (PrintWindow tiny_env 1) 0 1 \<noteq> snd (PrintWindow tiny_env 1) 0 0"
    by (simp_all add: tiny_env_def scenario_env_def)
  show ?thesis
    using empty_check_region_is_uniform [of "painted tiny_env 10 10 1" "- 7" "- 7"
        tiny_env tiny_world "(26, 49)" "(10, 10)" l w1 None] reach t l w1 e
    by (simp add: signed_compare painted_def restore_browser_def)
qed

text \<open>
  C9, as the code has it: the check size that \<^verbatim>\<open>CaptureBrowser\<close> hands to
  \<^verbatim>\<open>CaptureView\<close> is the client width and the client height as first read, each
  less 17, whatever the size of the bitmap is; and on a 32-bit image
  \<^verbatim>\<open>IsImageSameColour\<close> returns true exactly when every pixel of the rows and
  columns below the check height and width, clipped to the height and width of
  the image, equals the first pixel.
\<close>

theorem uniform_check_region:
  "(reaches_capture e w ws vs \<and> target_sizes e ws vs w = (l, w1) \<longrightarrow>
      CaptureBrowser e this_image w =
        finish_capture (GetTopLevelWindowHandle e) l this_image
          (CaptureView e (GetContentWindowHandle e) (targetClientWidth l) (targetClientHeight l)
             (get_clientWidth e - 17) (get_clientHeight e - 17) w1))
   \<and> (GetBPP img = 32 \<longrightarrow>
        IsImageSameColour img check_width check_height =
          Inr (\<forall>y x. 0 \<le>s y \<and> y <s c_min check_height (GetHeight img)
                   \<and> 0 \<le>s x \<and> x <s c_min check_width (GetWidth img)
                 \<longrightarrow> GetBits img y x = GetBits img 0 0))"
proof -
  have passed: "CaptureBrowser e this_image w =
        finish_capture (GetTopLevelWindowHandle e) l this_image
          (CaptureView e (GetContentWindowHandle e) (targetClientWidth l) (targetClientHeight l)
             (get_clientWidth e - 17) (get_clientHeight e - 17) w1)"
    if h: "reaches_capture e w ws vs \<and> target_sizes e ws vs w = (l, w1)"
  proof -
    from h have reach: "reaches_capture e w ws vs" and t: "target_sizes e ws vs w = (l, w1)"
      by simp_all
    from t have "clientWidth l = get_clientWidth e" "clientHeight l = get_clientHeight e"
      using target_sizes_client [of e ws vs w] by simp_all
    then show ?thesis
      by (simp add: CaptureBrowser_reaches [OF reach t])
  qed
  show ?thesis
    by (rule conjI) (use passed IsImageSameColour_iff in blast)+
qed

text \<open>
  In the scenario the bitmap is 984 by 900 and the check size is 967 by 629, not
  967 by 883.
\<close>

theorem uniform_check_region_witness:
  "reaches_capture scenario_env scenario_world (1000, 700) (984, 663)
   \<and> GetBPP (painted scenario_env 984 900 1) = 32
   \<and> CaptureBrowser scenario_env None scenario_world =
       finish_capture 1 (fst (target_sizes scenario_env (1000, 700) (984, 663) scenario_world)) None
         (CaptureView scenario_env 2 984 900 967 629
            (snd (target_sizes scenario_env (1000, 700) (984, 663) scenario_world)))
   \<and> IsImageSameColour (painted scenario_env 984 900 1) 967 629 = Inr False"
proof -
  define l where "l = fst (target_sizes scenario_env (1000, 700) (984, 663) scenario_world)"
  define w1 where "w1 = snd (target_sizes scenario_env (1000, 700) (984, 663) scenario_world)"
  have t: "target_sizes scenario_env (1000, 700) (984, 663) scenario_world = (l, w1)"
    by (simp add: l_def w1_def)
  have reach: "reaches_capture scenario_env scenario_world (1000, 700) (984, 663)"
    by code_simp
  have l: "targetClientWidth l = 984" "targetClientHeight l = 900"
    unfolding l_def by code_simp+
  have e: "get_clientWidth scenario_env = 984" "get_clientHeight scenario_env = 646"
    "GetContentWindowHandle scenario_env = 2" "GetTopLevelWindowHandle scenario_env = 1"
    by (simp_all add: scenario_env_def)
  have p: "GetBPP (painted scenario_env 984 900 1) = 32"
    by (simp add: painted_def)
  have "\<not> (\<forall>y x. 0 \<le>s y \<and> y <s c_min 629 (GetHeight (painted scenario_env 984 900 1))
                   \<and> 0 \<le>s x \<and> x <s c_min 967 (GetWidth (painted scenario_env 984 900 1))
                 \<longrightarrow> GetBits (painted scenario_env 984 900 1) y x
                       = GetBits (painted scenario_env 984 900 1) 0 0)"
    by (simp add: painted_def scenario_env_def c_min_def signed_compare)
      (rule exI [of _ 0], simp, rule exI [of _ 1], simp)
  then show ?thesis
    using uniform_check_region [of scenario_env scenario_world "(1000, 700)" "(984, 663)" l w1
        None "painted scenario_env 984 900 1" 967 629] reach t l e p
    by (simp flip: l_def w1_def)
qed

text \<open>
  C9 as stated fails in the scenario when the frame is of one colour in its rows
  0 to 699 and of another below. The bitmap is 984 by 900, so the stated region
  is 967 by 883 and holds the pixel of row 700 and column 0, which differs from
  the first pixel. The check height of the code is 646 - 17 = 629: every attempt
  is taken for a frame of one colour, and all three are used up.
\<close>

theorem check_region_counterexample:
  "targetClientWidth (fst (target_sizes banded_env (1000, 700) (984, 663) scenario_world)) - 17 = 967
   \<and> targetClientHeight (fst (target_sizes banded_env (1000, 700) (984, 663) scenario_world)) - 17 = 883
   \<and> (700 :: int32) <s 883 \<and> (0 :: int32) <s 967
   \<and> snd (PrintWindow banded_env 1) 700 0 \<noteq> snd (PrintWindow banded_env 1) 0 0
   \<and> fst (PrintWindow banded_env 1)
   \<and> calls (snd (snd (CaptureBrowser banded_env None scenario_world)))
       = [Call_SetWindowPos 1 1000 954,
          Call_PrintWindow 2, Call_UpdateWindow 2, Call_PrintWindow 2,
          Call_UpdateWindow 2, Call_PrintWindow 2, Call_UpdateWindow 2,
          Call_SetWindowPos 1 1000 700]"
proof -
  define l where "l = fst (target_sizes banded_env (1000, 700) (984, 663) scenario_world)"
  define w1 where "w1 = snd (target_sizes banded_env (1000, 700) (984, 663) scenario_world)"
  have t: "target_sizes banded_env (1000, 700) (984, 663) scenario_world = (l, w1)"
    by (simp add: l_def w1_def)
  have reach: "reaches_capture banded_env scenario_world (1000, 700) (984, 663)"
    by code_simp
  have l: "targetClientWidth l = 984" "targetClientHeight l = 900"
    "clientWidth l = 984" "clientHeight l = 646"
    "is_resized_width l = False" "is_resized_height l = True" "is_maximized l = False"
    "windowWidth l = 1000" "windowHeight l = 700"
    unfolding l_def by code_simp+
  have w1: "calls w1 = [Call_SetWindowPos 1 1000 954]"
    unfolding w1_def by code_simp
  have e: "Create banded_env 984 900"
    "GetContentWindowHandle banded_env = 2" "GetTopLevelWindowHandle banded_env = 1"
    "fst (PrintWindow banded_env i)"
    "snd (PrintWindow banded_env i) = (\<lambda>y x. if 700 \<le>s y then 1 else 0)" for i
    by (simp_all add: banded_env_def scenario_env_def)
  have no: "\<not> accepted banded_env 984 900 967 629 i" for i
    by (auto simp: accepted_def painted_def IsImageSameColour_iff e c_min_def signed_compare)
  have "calls (snd (snd (CaptureBrowser banded_env None scenario_world)))
       = [Call_SetWindowPos 1 1000 954,
          Call_PrintWindow 2, Call_UpdateWindow 2, Call_PrintWindow 2,
          Call_UpdateWindow 2, Call_PrintWindow 2, Call_UpdateWindow 2,
          Call_SetWindowPos 1 1000 700]"
    by (simp add: CaptureBrowser_reaches [OF reach t] l e CaptureView_image no
        finish_capture_image restore_browser_def w1)
  then show ?thesis
    using l e by (simp add: signed_compare flip: l_def)
qed

text \<open>
  C8: when the client width or the client height, as it is after the loop that
  reads the client size again, is below 1, \<^verbatim>\<open>CaptureBrowser\<close> hands the target view
  width and height to \<^verbatim>\<open>CaptureView\<close> as the size of the bitmap.
\<close>

theorem degenerate_client_area:
  "reaches_capture e w ws vs \<and> read_sizes e ws vs w = (l, w1)
     \<and> (targetClientWidth l <s 1 \<or> targetClientHeight l <s 1) \<longrightarrow>
   CaptureBrowser e this_image w =
     finish_capture (GetTopLevelWindowHandle e) l this_image
       (CaptureView e (GetContentWindowHandle e) (targetViewWidth l) (targetViewHeight l)
          (clientWidth l - 17) (clientHeight l - 17) w1)"
proof
  assume h: "reaches_capture e w ws vs \<and> read_sizes e ws vs w = (l, w1)
     \<and> (targetClientWidth l <s 1 \<or> targetClientHeight l <s 1)"
  then have reach: "reaches_capture e w ws vs" and r: "read_sizes e ws vs w = (l, w1)"
    and small: "targetClientWidth l <s 1 \<or> targetClientHeight l <s 1"
    by simp_all
  from r have t: "target_sizes e ws vs w = (ensure_client_area l, w1)"
    by (simp add: target_sizes_eq)
  from small have "targetClientWidth (ensure_client_area l) = targetViewWidth l"
    "targetClientHeight (ensure_client_area l) = targetViewHeight l"
    by (simp_all add: ensure_client_area_def)
  then show "CaptureBrowser e this_image w =
     finish_capture (GetTopLevelWindowHandle e) l this_image
       (CaptureView e (GetContentWindowHandle e) (targetViewWidth l) (targetViewHeight l)
          (clientWidth l - 17) (clientHeight l - 17) w1)"
    by (simp add: CaptureBrowser_reaches [OF reach t] finish_capture_ensure)
qed

theorem degenerate_client_area_witness:
  "reaches_capture empty_env scenario_world (1000, 700) (984, 663)
   \<and> targetClientWidth (fst (read_sizes empty_env (1000, 700) (984, 663) scenario_world)) <s 1
   \<and> targetViewWidth (fst (read_sizes empty_env (1000, 700) (984, 663) scenario_world)) = 984
   \<and> targetViewHeight (fst (read_sizes empty_env (1000, 700) (984, 663) scenario_world)) = 663
   \<and> CaptureBrowser empty_env None scenario_world =
       finish_capture 1 (fst (read_sizes empty_env (1000, 700) (984, 663) scenario_world)) None
         (CaptureView empty_env 2 984 663 (- 17) (- 17)
            (snd (read_sizes empty_env (1000, 700) (984, 663) scenario_world)))"
proof -
  define l where "l = fst (read_sizes empty_env (1000, 700) (984, 663) scenario_world)"
  define w1 where "w1 = snd (read_sizes empty_env (1000, 700) (984, 663) scenario_world)"
  have r: "read_sizes empty_env (1000, 700) (984, 663) scenario_world = (l, w1)"
    by (simp add: l_def w1_def)
  have reach: "reaches_capture empty_env scenario_world (1000, 700) (984, 663)"
    by code_simp
  have l: "targetClientWidth l = 0" "targetClientHeight l = 0"
    "targetViewWidth l = 984" "targetViewHeight l = 663" "clientWidth l = 0" "clientHeight l = 0"
    unfolding l_def by code_simp+
  have e: "GetContentWindowHandle empty_env = 2" "GetTopLevelWindowHandle empty_env = 1"
    by (simp_all add: empty_env_def scenario_env_def)
  show ?thesis
    using degenerate_client_area [of empty_env scenario_world "(1000, 700)" "(984, 663)" l w1 None]
      reach r l e
    by (simp add: signed_compare flip: l_def w1_def)
qed

text \<open>
  C4, as the code has it. On an axis that has to grow (the size before the
  ceiling is above the view size) the target is the size after the ceiling, so
  at most 65534: a width above 65534 is cut to 65534, and a height above 65534
  is cut to 65534, less the 2 pixels where there is a vertical scrollbar. The
  window is asked to take the size that follows from the cut value, and with the
  browser, the document and the canvas at hand \<^verbatim>\<open>CaptureBrowser\<close> goes on to
  \<^verbatim>\<open>CaptureView\<close>: no size is refused. On an axis that need not grow the target is
  the view size, whatever it is. So a target is at most 65534 whenever the view
  size is. For the height after the subtraction of the 2 pixels, the bound
  leaves out the view height -2147483648, the one from which the subtraction
  wraps around.
\<close>

theorem target_view_size_ceiling:
  "(fst vs <s natural_width e vs \<longrightarrow>
      is_resized_width (fst (target_sizes e ws vs w))
      \<and> targetViewWidth (fst (target_sizes e ws vs w)) = clamped (natural_width e vs)
      \<and> targetViewWidth (fst (target_sizes e ws vs w)) \<le>s 65534
      \<and> (65534 <s natural_width e vs \<longrightarrow>
           targetViewWidth (fst (target_sizes e ws vs w)) = 65534)
      \<and> Call_SetWindowPos (GetTopLevelWindowHandle e)
           (fst ws + (targetViewWidth (fst (target_sizes e ws vs w)) - fst vs)) (snd ws)
         \<in> set (window_calls (snd (target_sizes e ws vs w))))
   \<and> (\<not> fst vs <s natural_width e vs \<longrightarrow>
      \<not> is_resized_width (fst (target_sizes e ws vs w))
      \<and> targetViewWidth (fst (target_sizes e ws vs w)) = fst vs)
   \<and> (snd vs <s natural_height e vs \<longrightarrow>
      is_resized_height (fst (target_sizes e ws vs w))
      \<and> targetViewHeight (fst (target_sizes e ws vs w))
          = (if 0 <s scrollbar_width e vs then clamped (natural_height e vs) - 2
             else clamped (natural_height e vs))
      \<and> clamped (natural_height e vs) \<le>s 65534
      \<and> (- 2147483648 <s snd vs \<longrightarrow>
           targetViewHeight (fst (target_sizes e ws vs w)) \<le>s 65534)
      \<and> (65534 <s natural_height e vs \<longrightarrow>
           targetViewHeight (fst (target_sizes e ws vs w))
             = (if 0 <s scrollbar_width e vs then 65532 else 65534))
      \<and> Call_SetWindowPos (GetTopLevelWindowHandle e)
           (targetWindowWidth (fst (target_sizes e ws vs w)))
           (snd ws + (targetViewHeight (fst (target_sizes e ws vs w)) - snd vs))
         \<in> set (window_calls (snd (target_sizes e ws vs w))))
   \<and> (\<not> snd vs <s natural_height e vs \<longrightarrow>
      \<not> is_resized_height (fst (target_sizes e ws vs w))
      \<and> targetViewHeight (fst (target_sizes e ws vs w)) = snd vs)
   \<and> (fst vs \<le>s 65534 \<longrightarrow> targetViewWidth (fst (target_sizes e ws vs w)) \<le>s 65534)
   \<and> (snd vs \<le>s 65534 \<and> - 2147483648 <s snd vs \<longrightarrow>
        targetViewHeight (fst (target_sizes e ws vs w)) \<le>s 65534)
   \<and> (reaches_capture e w ws vs \<longrightarrow>
        CaptureBrowser e this_image w
          = finish_capture (GetTopLevelWindowHandle e) (fst (target_sizes e ws vs w)) this_image
              (CaptureView e (GetContentWindowHandle e)
                 (targetClientWidth (fst (target_sizes e ws vs w)))
                 (targetClientHeight (fst (target_sizes e ws vs w)))
                 (clientWidth (fst (target_sizes e ws vs w)) - 17)
                 (clientHeight (fst (target_sizes e ws vs w)) - 17)
                 (snd (target_sizes e ws vs w))))"
proof -
  define l where "l = fst (target_sizes e ws vs w)"
  define w1 where "w1 = snd (target_sizes e ws vs w)"
  define h where "h = GetTopLevelWindowHandle e"
  define nw where "nw = natural_width e vs"
  define nh where "nh = natural_height e vs"
  note f = target_sizes_fields [of e ws vs w, folded l_def nw_def nh_def]
  note c = target_sizes_window_calls [of e ws vs w, folded l_def w1_def h_def nw_def nh_def window_calls_def]
  have width: "is_resized_width l \<and> targetViewWidth l = clamped nw \<and> targetViewWidth l \<le>s 65534
      \<and> (65534 <s nw \<longrightarrow> targetViewWidth l = 65534)
      \<and> Call_SetWindowPos h (fst ws + (targetViewWidth l - fst vs)) (snd ws) \<in> set (window_calls w1)"
    if "fst vs <s nw"
    using that by (simp add: f c clamped_le clamped_cut)
  have no_width: "\<not> is_resized_width l \<and> targetViewWidth l = fst vs" if "\<not> fst vs <s nw"
    using that natural_no_growth(1) [of vs e] by (simp add: f flip: nw_def)
  have height: "is_resized_height l
      \<and> targetViewHeight l = (if 0 <s scrollbar_width e vs then clamped nh - 2 else clamped nh)
      \<and> clamped nh \<le>s 65534
      \<and> (- 2147483648 <s snd vs \<longrightarrow> targetViewHeight l \<le>s 65534)
      \<and> (65534 <s nh \<longrightarrow> targetViewHeight l = (if 0 <s scrollbar_width e vs then 65532 else 65534))
      \<and> Call_SetWindowPos h (targetWindowWidth l) (snd ws + (targetViewHeight l - snd vs))
          \<in> set (window_calls w1)"
    if "snd vs <s nh"
    using that grown_height_le [of vs e] by (simp add: f c clamped_le clamped_cut flip: nh_def)
  have no_height: "\<not> is_resized_height l \<and> targetViewHeight l = snd vs" if "\<not> snd vs <s nh"
    using that natural_no_growth(2) [of vs e] by (simp add: f flip: nh_def)
  have le_w: "targetViewWidth l \<le>s 65534" if "fst vs \<le>s 65534"
    using that width no_width by (cases "fst vs <s nw") (simp_all add: clamped_le)
  have le_h: "targetViewHeight l \<le>s 65534" if "snd vs \<le>s 65534 \<and> - 2147483648 <s snd vs"
    using that height no_height by (cases "snd vs <s nh") auto
  have proceeds: "CaptureBrowser e this_image w
      = finish_capture h l this_image
          (CaptureView e (GetContentWindowHandle e) (targetClientWidth l) (targetClientHeight l)
             (clientWidth l - 17) (clientHeight l - 17) w1)"
    if "reaches_capture e w ws vs"
    using that unfolding h_def by (rule CaptureBrowser_reaches) (simp add: l_def w1_def)
  show ?thesis
    unfolding l_def [symmetric] w1_def [symmetric] h_def [symmetric] nw_def [symmetric]
      nh_def [symmetric]
    using width no_width height no_height le_w le_h proceeds by blast
qed

theorem target_view_size_ceiling_witness:
  "(984 :: int32) <s natural_width huge_env (984, 663)
   \<and> 65534 <s natural_width huge_env (984, 663)
   \<and> (663 :: int32) <s natural_height huge_env (984, 663)
   \<and> 65534 <s natural_height huge_env (984, 663)
   \<and> 0 <s scrollbar_width huge_env (984, 663)
   \<and> (- 2147483648 :: int32) <s 663
   \<and> reaches_capture huge_env scenario_world (1000, 700) (984, 663)
   \<and> targetViewWidth (fst (target_sizes huge_env (1000, 700) (984, 663) scenario_world)) = 65534
   \<and> targetViewHeight (fst (target_sizes huge_env (1000, 700) (984, 663) scenario_world)) = 65532
   \<and> Call_SetWindowPos 1 65550 700
       \<in> set (window_calls (snd (target_sizes huge_env (1000, 700) (984, 663) scenario_world)))
   \<and> Call_SetWindowPos 1 65550 65569
       \<in> set (window_calls (snd (target_sizes huge_env (1000, 700) (984, 663) scenario_world)))
   \<and> CaptureBrowser huge_env None scenario_world
       = finish_capture 1 (fst (target_sizes huge_env (1000, 700) (984, 663) scenario_world)) None
           (CaptureView huge_env 2
              (targetClientWidth (fst (target_sizes huge_env (1000, 700) (984, 663) scenario_world)))
              (targetClientHeight (fst (target_sizes huge_env (1000, 700) (984, 663) scenario_world)))
              950 629
              (snd (target_sizes huge_env (1000, 700) (984, 663) scenario_world)))
   \<and> \<not> (70000 :: int32) <s natural_width wide_env (70000, 500)
   \<and> \<not> (500 :: int32) <s natural_height wide_env (70000, 500)
   \<and> targetViewWidth (fst (target_sizes wide_env (70016, 600) (70000, 500) wide_world)) = 70000
   \<and> targetViewHeight (fst (target_sizes wide_env (70016, 600) (70000, 500) wide_world)) = 500"
proof -
  have n: "natural_width huge_env (984, 663) = 100017" "natural_height huge_env (984, 663) = 100017"
    "scrollbar_width huge_env (984, 663) = 17"
    "natural_width wide_env (70000, 500) = 70000" "natural_height wide_env (70000, 500) = 500"
    "clamped 100017 = 65534"
    by code_simp+
  have reach: "reaches_capture huge_env scenario_world (1000, 700) (984, 663)"
    by code_simp
  have e: "GetTopLevelWindowHandle huge_env = 1" "GetContentWindowHandle huge_env = 2"
    "clientWidth (fst (target_sizes huge_env (1000, 700) (984, 663) scenario_world)) = 967"
    "clientHeight (fst (target_sizes huge_env (1000, 700) (984, 663) scenario_world)) = 646"
    "targetWindowWidth (fst (target_sizes huge_env (1000, 700) (984, 663) scenario_world)) = 65550"
    by code_simp+
  show ?thesis
    using target_view_size_ceiling [where vs = "(984, 663)" and e = huge_env and ws = "(1000, 700)"
        and w = scenario_world and this_image = None]
      target_view_size_ceiling [where vs = "(70000, 500)" and e = wide_env and ws = "(70016, 600)"
        and w = wide_world and this_image = None]
      reach
    by (auto simp: n e signed_compare)
qed

text \<open>
  C4 as stated fails for a content window that is 70000 pixels wide and a
  document that needs no growth: the target view width is the view width, 70000.
\<close>

theorem ceiling_counterexample:
  "reaches_capture wide_env wide_world (70016, 600) (70000, 500)
   \<and> targetViewWidth (fst (target_sizes wide_env (70016, 600) (70000, 500) wide_world)) = 70000
   \<and> \<not> (70000 :: int32) \<le>s 65534"
  by code_simp

text \<open>
  C5, as the code has it: when there is a vertical scrollbar (the scrollbar
  width is above 0) and the height has to grow (the height before the ceiling
  is above the view height), the target view height is the height after the
  ceiling less 2.
\<close>

theorem scrollbar_compensation:
  "0 <s scrollbar_width e vs \<and> snd vs <s natural_height e vs \<longrightarrow>
     scrollbarWidth (fst (target_sizes e ws vs w)) = scrollbar_width e vs
     \<and> is_resized_height (fst (target_sizes e ws vs w))
     \<and> targetViewHeight (fst (target_sizes e ws vs w)) = clamped (natural_height e vs) - 2"
  by (simp add: target_sizes_fields)

theorem scrollbar_compensation_witness:
  "0 <s scrollbar_width scrolling_env (984, 663)
   \<and> snd (984 :: int32, 663 :: int32) <s natural_height scrolling_env (984, 663)
   \<and> clamped (natural_height scrolling_env (984, 663)) = 2017
   \<and> targetViewHeight (fst (target_sizes scrolling_env (1000, 700) (984, 663) scenario_world)) = 2015"
proof -
  have n: "natural_height scrolling_env (984, 663) = 2017" "scrollbar_width scrolling_env (984, 663) = 17"
    "clamped 2017 = 2017"
    by code_simp+
  show ?thesis
    using scrollbar_compensation [of scrolling_env "(984, 663)" "(1000, 700)" scenario_world]
    by (simp add: n signed_compare)
qed

text \<open>
  C5 as stated fails when the document fits: with a vertical scrollbar of 17
  pixels the height before the ceiling is the view height, 663, and the target
  view height is 663, not 661.
\<close>

theorem scrollbar_compensation_counterexample:
  "scrollbarWidth (fst (target_sizes fitting_env (1000, 700) (984, 663) scenario_world)) = 17
   \<and> (0 :: int32) <s 17
   \<and> clamped (natural_height fitting_env (984, 663)) = 663
   \<and> targetViewHeight (fst (target_sizes fitting_env (1000, 700) (984, 663) scenario_world)) = 663
   \<and> (663 :: int32) \<noteq> 663 - 2"
  by code_simp

text \<open>
  C6, as the code has it: when the scroll width plus the scrollbar width is at
  most the view width, and the scroll height plus the scrollbar height is at
  most the view height, neither axis is resized, nothing is subtracted from the
  target view height, and the whole capture makes no call that resizes,
  restores or maximizes a window.
\<close>

theorem no_resize_when_content_fits:
  "reaches_capture e w ws vs
     \<and> get_scrollWidth e + scrollbar_width e vs \<le>s fst vs
     \<and> get_scrollHeight e + scrollbar_height e vs \<le>s snd vs \<longrightarrow>
   \<not> is_resized_width (fst (target_sizes e ws vs w))
   \<and> \<not> is_resized_height (fst (target_sizes e ws vs w))
   \<and> targetViewWidth (fst (target_sizes e ws vs w)) = fst vs
   \<and> targetViewHeight (fst (target_sizes e ws vs w)) = snd vs
   \<and> snd (target_sizes e ws vs w) = w
   \<and> (\<exists>cs. snd (snd (CaptureBrowser e this_image w)) = called cs w
          \<and> (\<forall>c \<in> set cs. \<not> is_window_call c))"
proof
  assume h: "reaches_capture e w ws vs
     \<and> get_scrollWidth e + scrollbar_width e vs \<le>s fst vs
     \<and> get_scrollHeight e + scrollbar_height e vs \<le>s snd vs"
  then have reach: "reaches_capture e w ws vs"
    by simp
  from h have nw: "\<not> fst vs <s natural_width e vs"
    and nh: "\<not> snd vs <s natural_height e vs"
    by (simp_all add: natural_width_def natural_height_def scrollbar_width_def
        scrollbar_height_def not_grown)
  then have same: "natural_width e vs = fst vs" "natural_height e vs = snd vs"
    by (simp_all add: natural_width_def natural_height_def no_growth_natural)
  have w1: "snd (target_sizes e ws vs w) = w"
    by (simp add: target_sizes_eq read_sizes_unchanged nw nh)
  obtain r cs where c: "CaptureBrowser e this_image w =
      (Inr (if r = None then E_FAIL else S_OK), r,
       restore_browser (GetTopLevelWindowHandle e) (fst (target_sizes e ws vs w))
         (called cs (snd (target_sizes e ws vs w))))"
    and cs: "\<forall>c \<in> set cs. c = Call_PrintWindow (GetContentWindowHandle e)
           \<or> c = Call_UpdateWindow (GetContentWindowHandle e)"
    using CaptureBrowser_result [OF reach, of this_image] by blast
  have "snd (snd (CaptureBrowser e this_image w)) = called cs w"
    by (simp add: c w1 restore_browser_unchanged target_sizes_fields nw nh)
  moreover have "\<forall>c \<in> set cs. \<not> is_window_call c"
    using cs by (auto simp: is_window_call_def)
  ultimately have "\<exists>cs. snd (snd (CaptureBrowser e this_image w)) = called cs w
          \<and> (\<forall>c \<in> set cs. \<not> is_window_call c)"
    by blast
  then show "\<not> is_resized_width (fst (target_sizes e ws vs w))
   \<and> \<not> is_resized_height (fst (target_sizes e ws vs w))
   \<and> targetViewWidth (fst (target_sizes e ws vs w)) = fst vs
   \<and> targetViewHeight (fst (target_sizes e ws vs w)) = snd vs
   \<and> snd (target_sizes e ws vs w) = w
   \<and> (\<exists>cs. snd (snd (CaptureBrowser e this_image w)) = called cs w
          \<and> (\<forall>c \<in> set cs. \<not> is_window_call c))"
    by (simp add: target_sizes_fields nw nh same w1)
qed

theorem no_resize_when_content_fits_witness:
  "reaches_capture fitting_env scenario_world (1000, 700) (984, 663)
   \<and> get_scrollWidth fitting_env + scrollbar_width fitting_env (984, 663) \<le>s 984
   \<and> get_scrollHeight fitting_env + scrollbar_height fitting_env (984, 663) \<le>s 663
   \<and> targetViewHeight (fst (target_sizes fitting_env (1000, 700) (984, 663) scenario_world)) = 663
   \<and> calls (snd (snd (CaptureBrowser fitting_env None scenario_world))) = [Call_PrintWindow 2]"
proof -
  have reach: "reaches_capture fitting_env scenario_world (1000, 700) (984, 663)"
    by code_simp
  have fits: "get_scrollWidth fitting_env + scrollbar_width fitting_env (984, 663) \<le>s 984"
    "get_scrollHeight fitting_env + scrollbar_height fitting_env (984, 663) \<le>s 663"
    by code_simp+
  have log: "calls (snd (snd (CaptureBrowser fitting_env None scenario_world))) = [Call_PrintWindow 2]"
    by code_simp
  show ?thesis
    using no_resize_when_content_fits [of fitting_env scenario_world "(1000, 700)" "(984, 663)" None]
      reach fits log
    by simp
qed

text \<open>
  C6 as stated fails for a document of 980 by 646 in a client area of 967 by 646:
  the scroll width 980 is at most the view width 984 and the scroll height 646 at
  most the view height 663, but 980 + 17 is above 984, and the window is made
  13 pixels wider.
\<close>

theorem no_resize_counterexample:
  "reaches_capture overflowing_env scenario_world (1000, 700) (984, 663)
   \<and> get_scrollWidth overflowing_env \<le>s 984
   \<and> get_scrollHeight overflowing_env \<le>s 663
   \<and> is_resized_width (fst (target_sizes overflowing_env (1000, 700) (984, 663) scenario_world))
   \<and> calls (snd (snd (CaptureBrowser overflowing_env None scenario_world)))
       = [Call_SetWindowPos 1 1013 700, Call_PrintWindow 2, Call_SetWindowPos 1 1000 700]"
  by code_simp

text \<open>
  C7, as the code has it: for every capture that finds a window of 1000 by 700, a
  view of 984 by 663, a client area of 984 by 646 and a document of 984 by 900,
  the scrollbar height is 17 and the scrollbar width 0, so nothing is subtracted
  and the target view height is 917. Before the capture the only request for a
  size is the one for 1000 by 954, made after the window has been taken out of
  its maximized state if it was maximized: the height grows and the width stays;
  the window is 1000 by 954 when the window system applies that request. The
  only window call after it is the one that restores the browser. When a
  maximized window holds its maximized rectangle, and the window system applies
  a request for 1000 by 700 on a window that is not maximized, the window is
  1000 by 700 again after the capture, maximized or not as it was.
\<close>

theorem worked_scenario:
  "reaches_capture e w (1000, 700) (984, 663)
     \<and> get_clientWidth e = 984 \<and> get_scrollWidth e = 984
     \<and> get_clientHeight e = 646 \<and> get_scrollHeight e = 900
     \<and> (\<forall>win. windows w (GetTopLevelWindowHandle e) = Some win \<and> zoomed win
            \<longrightarrow> rc win = maximized_rc win)
     \<and> (\<not> IsZoomed w (GetTopLevelWindowHandle e)
            \<longrightarrow> (\<forall>log. SetWindowPos_outcome w log (GetTopLevelWindowHandle e) 1000 700 = Applied))
   \<longrightarrow>
   scrollbarWidth (fst (target_sizes e (1000, 700) (984, 663) w)) = 0
   \<and> scrollbarHeight (fst (target_sizes e (1000, 700) (984, 663) w)) = 17
   \<and> targetViewWidth (fst (target_sizes e (1000, 700) (984, 663) w)) = 984
   \<and> targetViewHeight (fst (target_sizes e (1000, 700) (984, 663) w)) = 917
   \<and> \<not> is_resized_width (fst (target_sizes e (1000, 700) (984, 663) w))
   \<and> is_resized_height (fst (target_sizes e (1000, 700) (984, 663) w))
   \<and> targetWindowWidth (fst (target_sizes e (1000, 700) (984, 663) w)) = 1000
   \<and> targetWindowHeight (fst (target_sizes e (1000, 700) (984, 663) w)) = 954
   \<and> window_calls (snd (target_sizes e (1000, 700) (984, 663) w))
       = window_calls w
         @ (if IsZoomed w (GetTopLevelWindowHandle e)
            then [Call_ShowWindow (GetTopLevelWindowHandle e) SW_SHOWNOACTIVATE] else [])
         @ [Call_SetWindowPos (GetTopLevelWindowHandle e) 1000 954]
   \<and> ((\<forall>log. SetWindowPos_outcome w log (GetTopLevelWindowHandle e) 1000 954 = Applied)
        \<longrightarrow> GetWindowSize (snd (target_sizes e (1000, 700) (984, 663) w)) (GetTopLevelWindowHandle e)
              = Some (1000, 954))
   \<and> window_calls (snd (snd (CaptureBrowser e this_image w)))
       = window_calls w
         @ (if IsZoomed w (GetTopLevelWindowHandle e)
            then [Call_ShowWindow (GetTopLevelWindowHandle e) SW_SHOWNOACTIVATE] else [])
         @ [Call_SetWindowPos (GetTopLevelWindowHandle e) 1000 954,
            restoring_call (GetTopLevelWindowHandle e) (IsZoomed w (GetTopLevelWindowHandle e))
              (1000, 700)]
   \<and> GetWindowSize (snd (snd (CaptureBrowser e this_image w))) (GetTopLevelWindowHandle e)
       = Some (1000, 700)
   \<and> IsZoomed (snd (snd (CaptureBrowser e this_image w))) (GetTopLevelWindowHandle e)
       = IsZoomed w (GetTopLevelWindowHandle e)"
proof
  assume h: "reaches_capture e w (1000, 700) (984, 663)
     \<and> get_clientWidth e = 984 \<and> get_scrollWidth e = 984
     \<and> get_clientHeight e = 646 \<and> get_scrollHeight e = 900
     \<and> (\<forall>win. windows w (GetTopLevelWindowHandle e) = Some win \<and> zoomed win
            \<longrightarrow> rc win = maximized_rc win)
     \<and> (\<not> IsZoomed w (GetTopLevelWindowHandle e)
            \<longrightarrow> (\<forall>log. SetWindowPos_outcome w log (GetTopLevelWindowHandle e) 1000 700 = Applied))"
  define top where "top = GetTopLevelWindowHandle e"
  define l where "l = fst (target_sizes e (1000, 700) (984, 663) w)"
  define w1 where "w1 = snd (target_sizes e (1000, 700) (984, 663) w)"
  define w2 where "w2 = snd (snd (CaptureBrowser e this_image w))"
  from h have reach: "reaches_capture e w (1000, 700) (984, 663)"
    by simp
  then have size: "GetWindowSize w top = Some (1000, 700)"
    by (simp add: reaches_capture_def top_def)
  from h have n: "scrollbar_width e (984, 663) = 0" "scrollbar_height e (984, 663) = 17"
    "natural_width e (984, 663) = 984" "natural_height e (984, 663) = 917"
    "clamped 917 = 917"
    by (simp_all add: scrollbar_width_def scrollbar_height_def natural_width_def
        natural_height_def clamped_def SIZE_LIMIT_def c_max_def signed_compare)
  have f: "scrollbarWidth l = 0" "scrollbarHeight l = 17" "targetViewWidth l = 984"
    "targetViewHeight l = 917" "\<not> is_resized_width l" "is_resized_height l"
    "targetWindowWidth l = 1000" "targetWindowHeight l = 954"
    by (simp_all add: l_def target_sizes_fields n signed_compare)
  have grow: "window_calls w1 = window_calls w
      @ (if IsZoomed w top then [Call_ShowWindow top SW_SHOWNOACTIVATE] else [])
      @ [Call_SetWindowPos top 1000 954]"
    using target_sizes_window_calls [of e "(1000, 700)" "(984, 663)" w]
    by (simp add: n signed_compare f window_calls_def flip: l_def w1_def top_def)
  have grown: "GetWindowSize w1 top = Some (1000, 954)"
    if "\<forall>log. SetWindowPos_outcome w log top 1000 954 = Applied"
    using target_sizes_height_grown [of w e "(1000, 700)" "(984, 663)"] that size
    by (simp add: n signed_compare f flip: l_def w1_def top_def)
  have all: "window_calls w2 = window_calls w1 @ [restoring_call top (IsZoomed w top) (1000, 700)]"
    using CaptureBrowser_window_calls [OF reach, of this_image]
    by (simp add: n signed_compare window_calls_def flip: w1_def w2_def top_def)
  have restored: "GetWindowSize w2 top = GetWindowSize w top \<and> IsZoomed w2 top = IsZoomed w top"
    unfolding w2_def top_def using h size
    by (intro CaptureBrowser_restores) (auto simp: top_def)
  show "scrollbarWidth (fst (target_sizes e (1000, 700) (984, 663) w)) = 0
   \<and> scrollbarHeight (fst (target_sizes e (1000, 700) (984, 663) w)) = 17
   \<and> targetViewWidth (fst (target_sizes e (1000, 700) (984, 663) w)) = 984
   \<and> targetViewHeight (fst (target_sizes e (1000, 700) (984, 663) w)) = 917
   \<and> \<not> is_resized_width (fst (target_sizes e (1000, 700) (984, 663) w))
   \<and> is_resized_height (fst (target_sizes e (1000, 700) (984, 663) w))
   \<and> targetWindowWidth (fst (target_sizes e (1000, 700) (984, 663) w)) = 1000
   \<and> targetWindowHeight (fst (target_sizes e (1000, 700) (984, 663) w)) = 954
   \<and> window_calls (snd (target_sizes e (1000, 700) (984, 663) w))
       = window_calls w
         @ (if IsZoomed w (GetTopLevelWindowHandle e)
            then [Call_ShowWindow (GetTopLevelWindowHandle e) SW_SHOWNOACTIVATE] else [])
         @ [Call_SetWindowPos (GetTopLevelWindowHandle e) 1000 954]
   \<and> ((\<forall>log. SetWindowPos_outcome w log (GetTopLevelWindowHandle e) 1000 954 = Applied)
        \<longrightarrow> GetWindowSize (snd (target_sizes e (1000, 700) (984, 663) w)) (GetTopLevelWindowHandle e)
              = Some (1000, 954))
   \<and> window_calls (snd (snd (CaptureBrowser e this_image w)))
       = window_calls w
         @ (if IsZoomed w (GetTopLevelWindowHandle e)
            then [Call_ShowWindow (GetTopLevelWindowHandle e) SW_SHOWNOACTIVATE] else [])
         @ [Call_SetWindowPos (GetTopLevelWindowHandle e) 1000 954,
            restoring_call (GetTopLevelWindowHandle e) (IsZoomed w (GetTopLevelWindowHandle e))
              (1000, 700)]
   \<and> GetWindowSize (snd (snd (CaptureBrowser e this_image w))) (GetTopLevelWindowHandle e)
       = Some (1000, 700)
   \<and> IsZoomed (snd (snd (CaptureBrowser e this_image w))) (GetTopLevelWindowHandle e)
       = IsZoomed w (GetTopLevelWindowHandle e)"
    unfolding l_def [symmetric] w1_def [symmetric] w2_def [symmetric] top_def [symmetric]
    using f grow grown all restored size by simp
qed

theorem worked_scenario_witness:
  "reaches_capture scenario_env scenario_world (1000, 700) (984, 663)
   \<and> get_clientWidth scenario_env = 984 \<and> get_scrollWidth scenario_env = 984
   \<and> get_clientHeight scenario_env = 646 \<and> get_scrollHeight scenario_env = 900
   \<and> \<not> IsZoomed scenario_world 1
   \<and> targetViewHeight (fst (target_sizes scenario_env (1000, 700) (984, 663) scenario_world)) = 917
   \<and> targetWindowHeight (fst (target_sizes scenario_env (1000, 700) (984, 663) scenario_world)) = 954
   \<and> window_calls (snd (target_sizes scenario_env (1000, 700) (984, 663) scenario_world))
       = [Call_SetWindowPos 1 1000 954]
   \<and> GetWindowSize (snd (target_sizes scenario_env (1000, 700) (984, 663) scenario_world)) 1
       = Some (1000, 954)
   \<and> window_calls (snd (snd (CaptureBrowser scenario_env None scenario_world)))
       = [Call_SetWindowPos 1 1000 954, Call_SetWindowPos 1 1000 700]
   \<and> GetWindowSize (snd (snd (CaptureBrowser scenario_env None scenario_world))) 1 = Some (1000, 700)"
proof -
  have reach: "reaches_capture scenario_env scenario_world (1000, 700) (984, 663)"
    by code_simp
  have e: "get_clientWidth scenario_env = 984" "get_scrollWidth scenario_env = 984"
    "get_clientHeight scenario_env = 646" "get_scrollHeight scenario_env = 900"
    "GetTopLevelWindowHandle scenario_env = 1"
    by (simp_all add: scenario_env_def)
  have w: "\<not> IsZoomed scenario_world 1"
    "\<forall>win. windows scenario_world 1 = Some win \<and> zoomed win \<longrightarrow> rc win = maximized_rc win"
    "\<forall>log. SetWindowPos_outcome scenario_world log 1 1000 700 = Applied"
    "\<forall>log. SetWindowPos_outcome scenario_world log 1 1000 954 = Applied"
    "window_calls scenario_world = []"
    by (simp_all add: scenario_world_def IsZoomed_def plain_window_def window_calls_def)
  show ?thesis
    using worked_scenario [of scenario_env scenario_world None] reach e w
    by (simp add: restoring_call_def)
qed

text \<open>
  C7 as stated fails: in the scenario the scrollbar width is 0, nothing is
  subtracted, and the target view height is 917, not 915.
\<close>

theorem worked_scenario_counterexample:
  "reaches_capture scenario_env scenario_world (1000, 700) (984, 663)
   \<and> scrollbarWidth (fst (target_sizes scenario_env (1000, 700) (984, 663) scenario_world)) = 0
   \<and> targetViewHeight (fst (target_sizes scenario_env (1000, 700) (984, 663) scenario_world)) = 917
   \<and> targetViewHeight (fst (target_sizes scenario_env (1000, 700) (984, 663) scenario_world)) \<noteq> 915"
  by code_simp

text \<open>
  C1, as the code has it. \<^verbatim>\<open>CaptureBrowser\<close> returns, unless \<^verbatim>\<open>GetDocument\<close> or
  \<^verbatim>\<open>GetCanvas\<close> calls through a null pointer, which happens before any call to
  the window system is made. Either
  \<^verbatim>\<open>CaptureBrowser\<close> makes no call that resizes, restores or maximizes a window, or
  its last call is the one that restores the browser: a maximized window is maximized again, another one is
  given the size read at the start. The result of that call is not looked at.
  When a maximized window holds its maximized rectangle, and the window system
  applies a request for the original size on a window that is not maximized,
  then after \<^verbatim>\<open>CaptureBrowser\<close> the size and the maximized flag of the top-level
  window are what they were before, whatever was resized, whether or not the
  earlier requests were applied and whether or not the view was captured.
\<close>

theorem window_restored:
  "((\<exists>hr. fst (CaptureBrowser e this_image w) = Inr hr)
     \<or> CaptureBrowser e this_image w = (Inl access_violation, this_image, w))
   \<and> (\<exists>cs. calls (snd (snd (CaptureBrowser e this_image w))) = calls w @ cs
        \<and> ((\<forall>c \<in> set cs. \<not> is_window_call c)
             \<or> (\<exists>cs' ws. GetWindowSize w (GetTopLevelWindowHandle e) = Some ws
                   \<and> cs = cs' @ [restoring_call (GetTopLevelWindowHandle e)
                                    (IsZoomed w (GetTopLevelWindowHandle e)) ws])))
   \<and> ((\<forall>win. windows w (GetTopLevelWindowHandle e) = Some win \<and> zoomed win
            \<longrightarrow> rc win = maximized_rc win)
        \<and> (\<forall>cx cy. GetWindowSize w (GetTopLevelWindowHandle e) = Some (cx, cy)
              \<and> \<not> IsZoomed w (GetTopLevelWindowHandle e)
            \<longrightarrow> (\<forall>log. SetWindowPos_outcome w log (GetTopLevelWindowHandle e) cx cy = Applied))
       \<longrightarrow>
         GetWindowSize (snd (snd (CaptureBrowser e this_image w))) (GetTopLevelWindowHandle e)
           = GetWindowSize w (GetTopLevelWindowHandle e)
         \<and> IsZoomed (snd (snd (CaptureBrowser e this_image w))) (GetTopLevelWindowHandle e)
           = IsZoomed w (GetTopLevelWindowHandle e))"
  using CaptureBrowser_outcome [of e this_image w] CaptureBrowser_calls [of e this_image w]
    CaptureBrowser_restores [of w e this_image]
  by blast

theorem window_restored_witness:
  "windows scenario_world 1 = Some (plain_window 1000 700)
   \<and> \<not> zoomed (plain_window 1000 700)
   \<and> GetWindowSize scenario_world 1 = Some (1000, 700)
   \<and> \<not> IsZoomed scenario_world 1
   \<and> (\<forall>log. SetWindowPos_outcome scenario_world log 1 1000 700 = Applied)
   \<and> is_resized_height (fst (target_sizes scenario_env (1000, 700) (984, 663) scenario_world))
   \<and> GetWindowSize (snd (snd (CaptureBrowser scenario_env None scenario_world))) 1
       = Some (1000, 700)
   \<and> \<not> IsZoomed (snd (snd (CaptureBrowser scenario_env None scenario_world))) 1
   \<and> IsZoomed maximized_world 1
   \<and> GetWindowSize maximized_world 1 = Some (1920, 1080)
   \<and> is_resized_height (fst (target_sizes maximized_env (1920, 1080) (1904, 1043) maximized_world))
   \<and> GetWindowSize (snd (snd (CaptureBrowser maximized_env None maximized_world))) 1
       = Some (1920, 1080)
   \<and> IsZoomed (snd (snd (CaptureBrowser maximized_env None maximized_world))) 1"
proof -
  have w: "\<forall>win. windows scenario_world 1 = Some win \<and> zoomed win \<longrightarrow> rc win = maximized_rc win"
    "\<not> IsZoomed scenario_world 1"
    "\<forall>log. SetWindowPos_outcome scenario_world log 1 1000 700 = Applied"
    by (simp_all add: scenario_world_def IsZoomed_def plain_window_def)
  have s: "GetWindowSize scenario_world 1 = Some (1000, 700)"
    "is_resized_height (fst (target_sizes scenario_env (1000, 700) (984, 663) scenario_world))"
    by code_simp+
  have e: "GetTopLevelWindowHandle scenario_env = 1" "GetTopLevelWindowHandle maximized_env = 1"
    by (simp_all add: scenario_env_def maximized_env_def)
  have m: "\<forall>win. windows maximized_world 1 = Some win \<and> zoomed win \<longrightarrow> rc win = maximized_rc win"
    "IsZoomed maximized_world 1"
    by (simp_all add: maximized_world_def IsZoomed_def plain_window_def)
  have t: "GetWindowSize maximized_world 1 = Some (1920, 1080)"
    "is_resized_height (fst (target_sizes maximized_env (1920, 1080) (1904, 1043) maximized_world))"
    by code_simp+
  show ?thesis
    using window_restored [of scenario_env None scenario_world]
      window_restored [of maximized_env None maximized_world] w s m t
    by (simp add: e) (simp add: scenario_world_def plain_window_def)
qed

text \<open>
  C1 as stated fails when the window system refuses the request that restores
  the browser: in the scenario the window is made 954 pixels high, the last call
  asks for 1000 by 700 again and is refused, and the window stays 1000 by 954.
\<close>

theorem window_restored_counterexample:
  "GetWindowSize stubborn_world 1 = Some (1000, 700)
   \<and> \<not> IsZoomed stubborn_world 1
   \<and> fst (CaptureBrowser scenario_env None stubborn_world) = Inr S_OK
   \<and> calls (snd (snd (CaptureBrowser scenario_env None stubborn_world)))
       = [Call_SetWindowPos 1 1000 954, Call_PrintWindow 2, Call_SetWindowPos 1 1000 700]
   \<and> GetWindowSize (snd (snd (CaptureBrowser scenario_env None stubborn_world))) 1
       = Some (1000, 954)"
  by code_simp

text \<open>
  C2: the code departs from the claim when the browser is found and its wrapper
  has left the document pointer null. \<^verbatim>\<open>GetDocument\<close> tests the address of the
  pointer, not the pointer (line 319), so its warning and its \<^verbatim>\<open>return false\<close> are
  never reached; line 325 calls \<^verbatim>\<open>QueryInterface\<close> through the null pointer, and
  \<^verbatim>\<open>ExecuteInternal\<close> ends without a response, where the claim has a failed
  attempt and, after two of them, a successful response with an empty payload.
  The request ends in the same way when \<^verbatim>\<open>get_body\<close> succeeds and stores no element:
  line 363 of \<^verbatim>\<open>GetCanvas\<close> calls through the pointer without a test. With the
  document and its canvas at hand the same request is answered with the text of
  the encoder.
\<close>

theorem ExecuteInternal_null_document:
  "GetCurrentBrowser null_document_executor = WD_SUCCESS null_document_executor
   \<and> GetTopLevelWindowHandle (browser_at null_document_executor 1) = 1
   \<and> GetContentWindowHandle (browser_at null_document_executor 1) = 2
   \<and> \<not> browser_GetDocument (browser_at null_document_executor 1)
   \<and> fst (CaptureBrowser (browser_at null_document_executor 1) None scenario_world)
       = Inl access_violation
   \<and> fst (ExecuteInternal null_document_executor None scenario_world) = Inl access_violation
   \<and> fst (ExecuteInternal null_document_executor None scenario_world) \<noteq> Inr (SuccessResponse [])
   \<and> GetCanvas null_body_env = Inl access_violation
   \<and> fst (ExecuteInternal null_body_executor None scenario_world) = Inl access_violation
   \<and> fst (ExecuteInternal scenario_executor None scenario_world) = Inr (SuccessResponse ''iVBORw=='')"
  by code_simp

end
